theory Spec2Isabelle
  imports Main "HOL-Library.Word" "HOL-Library.Sublist"
begin

section \<open>The archive session of modorganizer-archive\<close>

text \<open>
  The repository holds the class \<open>ArchiveImpl\<close> in several files. The definitions below
  follow \<^verbatim>\<open>src/unnamed/part_003\<close> (the file that stages an extraction in a
  \<open>QTemporaryDir\<close> and then copies to the requested places). The file
  \<^verbatim>\<open>src/unnamed/part_004\<close> holds the same class; its \<open>open\<close>, its
  \<open>passwordCallbackWrapper\<close>, its \<open>progressCallbackWrapper\<close> and the index loop of its
  \<open>extract\<close> are those of \<^verbatim>\<open>part_003\<close>, and its \<open>close()\<close> has one statement
  more: it stores \<open>false\<close> in \<open>m_shouldCancel\<close>. So \<open>close\<close> takes the file as an
  argument. The other differences of \<^verbatim>\<open>part_004\<close> are not modelled: it has no
  \<open>m_FileMap\<close>, it makes the temporary directory with \<open>tmpnam\<close> and
  \<open>create_directory\<close> and does not remove it, and it builds its texts with
  \<open>std::format\<close>. The file \<^verbatim>\<open>src/unnamed/part_002\<close>, which extracts straight
  into the output directory, is not modelled either.

  Everything outside the class is a parameter: the file system, the 7z engine (bit7z)
  and the caller's callbacks. A call that leaves the class is written down as an
  \<open>effect\<close>; every operation returns the list of the effects it caused, in order.
\<close>

subsection \<open>Types\<close>

type_synonym path = string
type_synonym u32 = "32 word"
type_synonym u64 = "64 word"

text \<open>The enumerations of \<open>archive.h\<close>, with the values that the class uses.\<close>

datatype error =
    ERROR_NONE
  | ERROR_LIBRARY_NOT_FOUND
  | ERROR_ARCHIVE_NOT_FOUND
  | ERROR_FAILED_TO_OPEN_ARCHIVE
  | ERROR_EXTRACT_CANCELLED
  | ERROR_LIBRARY_ERROR
  | ERROR_OUT_OF_MEMORY

datatype log_level = Info | Error
datatype progress_type = EXTRACTION
datatype file_change_type = EXTRACTION_START

datatype source_file = Part_003 | Part_004

subsection \<open>Entries: class \<open>FileDataImpl\<close>\<close>

record FileDataImpl =
  m_FileName :: path
  m_Size :: u64
  m_CRC :: u64
  m_OutputFilePaths :: "path list"
  m_IsDirectory :: bool

definition new_FileDataImpl :: "path \<Rightarrow> u64 \<Rightarrow> u64 \<Rightarrow> bool \<Rightarrow> FileDataImpl" where
  "new_FileDataImpl fileName sz crc isDirectory =
     \<lparr>m_FileName = fileName, m_Size = sz, m_CRC = crc, m_OutputFilePaths = [],
      m_IsDirectory = isDirectory\<rparr>"

definition getArchiveFilePath :: "FileDataImpl \<Rightarrow> path" where
  "getArchiveFilePath f = m_FileName f"

definition getSize :: "FileDataImpl \<Rightarrow> u64" where
  "getSize f = m_Size f"

definition addOutputFilePath :: "path \<Rightarrow> FileDataImpl \<Rightarrow> FileDataImpl" where
  "addOutputFilePath fileName f = f\<lparr>m_OutputFilePaths := m_OutputFilePaths f @ [fileName]\<rparr>"

definition getOutputFilePaths :: "FileDataImpl \<Rightarrow> path list" where
  "getOutputFilePaths f = m_OutputFilePaths f"

definition clearOutputFilePaths :: "FileDataImpl \<Rightarrow> FileDataImpl" where
  "clearOutputFilePaths f = f\<lparr>m_OutputFilePaths := []\<rparr>"

definition isEmpty :: "FileDataImpl \<Rightarrow> bool" where
  "isEmpty f = (m_OutputFilePaths f = [])"

definition isDirectory :: "FileDataImpl \<Rightarrow> bool" where
  "isDirectory f = m_IsDirectory f"

definition getCRC :: "FileDataImpl \<Rightarrow> u64" where
  "getCRC f = m_CRC f"

subsection \<open>The engine, the file system and the callbacks\<close>

text \<open>
  One item as the engine enumerates it (\<open>item.path()\<close>, \<open>item.size()\<close>, \<open>item.crc()\<close>,
  \<open>item.isDir()\<close>, \<open>item.index()\<close>).
\<close>

record item =
  item_path :: path
  item_size :: u64
  item_crc :: u64
  item_isDir :: bool
  item_index :: u32

text \<open>
  A \<open>BitArchiveReader\<close> as the class sees it. Every engine call inside a \<open>try\<close> block may
  raise a \<open>BitException\<close>; \<open>Inl what\<close> is the exception with its text. The enumeration
  yields \<open>reader_items\<close> and then either ends or raises \<open>reader_items_fault\<close>. The two
  flags record whether \<open>setProgressCallback\<close> and \<open>setFileCallback\<close> were called on this
  reader; the password callback is set on every reader right after its construction.
\<close>

record BitArchiveReader =
  reader_size :: "string + u64"
  reader_items :: "item list"
  reader_items_fault :: "string option"
  progressCallback_set :: bool
  fileCallback_set :: bool

datatype file_kind = Missing | Directory | Other_File

text \<open>
  What the surroundings answer: loading the 7z library from a path (\<open>None\<close> is success,
  \<open>Some what\<close> the exception), \<open>exists\<close> and \<open>is_directory\<close> of a path, the construction of
  a reader on a path, and the decimal text of \<open>static_cast<int>\<close> of an error value (the
  declaration of the enumeration is not among the sources).
\<close>

record world =
  load_library :: "path \<Rightarrow> string option"
  file_status :: "path \<Rightarrow> file_kind"
  new_BitArchiveReader :: "path \<Rightarrow> string + BitArchiveReader"
  error_number :: "error \<Rightarrow> string"

datatype fs_op = CreateDirectories path | CopyFile path path

text \<open>
  Calls that leave the class. \<open>PasswordCall pw\<close> is one invocation of the caller's
  password provider, which returned \<open>pw\<close>. \<open>FsCall op ec\<close> is a call of
  \<open>create_directories\<close> or \<open>copy_file\<close> with the error code it set (\<open>None\<close>: no error,
  \<open>Some text\<close>: \<open>ec.message()\<close>).
\<close>

datatype effect =
    LogCall log_level string
  | ProgressCall progress_type u64 u64
  | FileChangeCall file_change_type path
  | ErrorCall string
  | PasswordCall string
  | TempDirCreate "path option"
  | TempDirRemove path
  | EngineExtractTo path "u32 list"
  | FsCall fs_op "string option"

subsection \<open>The session: class \<open>ArchiveImpl\<close>\<close>

text \<open>
  A callback of the caller that is only invoked (progress, file change, error, log) is
  kept as a flag: \<open>True\<close> when a callable was given. \<open>m_LogCallback\<close> is \<open>False\<close> when it
  is the \<open>DefaultLogCallback\<close>, which does nothing. The password provider returns a
  value, and may return another one each time: it is the function from the number of
  earlier invocations to the answer.
\<close>

record ArchiveImpl =
  m_Valid :: bool
  m_Nested :: bool
  m_LastError :: error
  m_shouldCancel :: bool
  m_Library :: "path option"
  m_ArchivePtr :: "BitArchiveReader option"
  m_ProgressType :: progress_type
  m_Total :: u64
  m_FileChangeType :: file_change_type
  m_ProgressCallback :: bool
  m_FileChangeCallback :: bool
  m_LogCallback :: bool
  m_ErrorCallback :: bool
  m_PasswordCallback :: "(nat \<Rightarrow> string) option"
  m_FileList :: "FileDataImpl list"
  m_FileMap :: "path \<rightharpoonup> u32"
  m_Password :: string

definition libraryPaths :: "path list" where
  "libraryPaths = [''lib/lib7zip.so'']"

definition isValid :: "ArchiveImpl \<Rightarrow> bool" where
  "isValid s = m_Valid s"

definition getLastError :: "ArchiveImpl \<Rightarrow> error" where
  "getLastError s = m_LastError s"

definition getFileList :: "ArchiveImpl \<Rightarrow> FileDataImpl list" where
  "getFileList s = m_FileList s"

definition setLogCallback :: "bool \<Rightarrow> ArchiveImpl \<Rightarrow> ArchiveImpl" where
  "setLogCallback logCallback s = s\<lparr>m_LogCallback := logCallback\<rparr>"

text \<open>A call of \<open>m_LogCallback\<close>: seen outside only when a sink was installed.\<close>

definition log_call :: "ArchiveImpl \<Rightarrow> log_level \<Rightarrow> string \<Rightarrow> effect list" where
  "log_call s level message = (if m_LogCallback s then [LogCall level message] else [])"

text \<open>
  The loop of the constructor over \<open>libraryPaths\<close>: the first path that loads wins, the
  text of the last exception is kept.
\<close>

fun load_first :: "(path \<Rightarrow> string option) \<Rightarrow> path list \<Rightarrow> string \<Rightarrow> path option \<times> string" where
  "load_first ld [] err = (None, err)"
| "load_first ld (p # ps) err =
     (case ld p of None \<Rightarrow> (Some p, err) | Some what \<Rightarrow> load_first ld ps what)"

text \<open>
  The constructor. Its log call goes to the default callback, installed two lines
  before, so nothing is seen outside.
\<close>

definition new_ArchiveImpl :: "world \<Rightarrow> ArchiveImpl" where
  "new_ArchiveImpl w =
     (let lib = fst (load_first (load_library w) libraryPaths [])
      in \<lparr>m_Valid = (lib \<noteq> None), m_Nested = False,
          m_LastError = (if lib = None then ERROR_LIBRARY_NOT_FOUND else ERROR_NONE),
          m_shouldCancel = False, m_Library = lib, m_ArchivePtr = None,
          m_ProgressType = EXTRACTION, m_Total = 0, m_FileChangeType = EXTRACTION_START,
          m_ProgressCallback = False, m_FileChangeCallback = False, m_LogCallback = False,
          m_ErrorCallback = False, m_PasswordCallback = None, m_FileList = [],
          m_FileMap = Map.empty, m_Password = []\<rparr>)"

definition clearFileList :: "ArchiveImpl \<Rightarrow> ArchiveImpl" where
  "clearFileList s = s\<lparr>m_FileList := []\<rparr>"

text \<open>
  \<open>resetFileList\<close> is private and called by \<open>open\<close> only, after \<open>m_ArchivePtr\<close> was set:
  the reader is the one just constructed. The items that the enumeration yields before
  it ends (or raises) are appended in order.
\<close>

definition push_item :: "item \<Rightarrow> ArchiveImpl \<Rightarrow> ArchiveImpl" where
  "push_item it s =
     s\<lparr>m_FileList := m_FileList s @
          [new_FileDataImpl (item_path it) (item_size it) (item_crc it) (item_isDir it)],
       m_FileMap := (m_FileMap s)(item_path it \<mapsto> item_index it)\<rparr>"

definition resetFileList :: "BitArchiveReader \<Rightarrow> ArchiveImpl \<Rightarrow> ArchiveImpl" where
  "resetFileList reader s = fold push_item (reader_items reader) (clearFileList s)"

text \<open>\<open>open\<close> (the name is a keyword of Isabelle, hence the suffix).\<close>

definition open_archive ::
  "world \<Rightarrow> ArchiveImpl \<Rightarrow> path \<Rightarrow> (nat \<Rightarrow> string) option \<Rightarrow> ArchiveImpl \<times> effect list \<times> bool" where
  "open_archive w s archiveName passwordCallback =
     (if \<not> m_Valid s then
        (s,
         log_call s Error
           (case m_LastError s of
              ERROR_LIBRARY_NOT_FOUND \<Rightarrow> ''Could not open 7z library''
            | e \<Rightarrow> ''Unknown error, id: '' @ error_number w e),
         False)
      else if file_status w archiveName = Missing \<or> file_status w archiveName = Directory then
        (s\<lparr>m_LastError := ERROR_ARCHIVE_NOT_FOUND\<rparr>, log_call s Error ''Archive not found'', False)
      else
        (case new_BitArchiveReader w archiveName of
           Inl what \<Rightarrow>
             (s\<lparr>m_LastError := ERROR_FAILED_TO_OPEN_ARCHIVE\<rparr>, log_call s Error what, False)
         | Inr reader \<Rightarrow>
             (let s1 = s\<lparr>m_ArchivePtr := Some reader, m_PasswordCallback := passwordCallback\<rparr>
              in case reader_size reader of
                   Inl what \<Rightarrow>
                     (s1\<lparr>m_LastError := ERROR_FAILED_TO_OPEN_ARCHIVE\<rparr>,
                      log_call s Error what, False)
                 | Inr archiveSize \<Rightarrow>
                     (let s2 = resetFileList reader
                                 (s1\<lparr>m_Total := archiveSize, m_LastError := ERROR_NONE\<rparr>)
                      in case reader_items_fault reader of
                           Some what \<Rightarrow>
                             (s2\<lparr>m_LastError := ERROR_FAILED_TO_OPEN_ARCHIVE\<rparr>,
                              log_call s Error what, False)
                         | None \<Rightarrow> (s2, [], True)))))"

text \<open>
  \<open>close\<close>. In \<^verbatim>\<open>part_003\<close> it ends after \<open>m_PasswordCallback = {}\<close>; in
  \<^verbatim>\<open>part_004\<close> one more statement follows, \<open>m_shouldCancel.store(false)\<close>. Neither
  file assigns \<open>m_Password\<close>.
\<close>

definition close :: "source_file \<Rightarrow> ArchiveImpl \<Rightarrow> ArchiveImpl" where
  "close v s =
     (let s1 = clearFileList (s\<lparr>m_ArchivePtr := None\<rparr>);
          s2 = s1\<lparr>m_PasswordCallback := None\<rparr>
      in if v = Part_004 then s2\<lparr>m_shouldCancel := False\<rparr> else s2)"

definition cancel :: "ArchiveImpl \<Rightarrow> ArchiveImpl" where
  "cancel s = s\<lparr>m_shouldCancel := True\<rparr>"

definition reportError :: "ArchiveImpl \<Rightarrow> string \<Rightarrow> effect list" where
  "reportError s message = (if m_ErrorCallback s then [ErrorCall message] else [])"

subsection \<open>The callback wrappers\<close>

text \<open>
  \<open>passwordCallbackWrapper\<close> returns the new session, the effects and the password
  handed to the engine. The provider is asked when \<open>m_Password\<close> is empty and a provider
  is there.
\<close>

definition passwordCallbackWrapper :: "ArchiveImpl \<Rightarrow> ArchiveImpl \<times> effect list \<times> string" where
  "passwordCallbackWrapper s =
     (case (m_Password s = [], m_PasswordCallback s) of
        (True, Some provider) \<Rightarrow>
          (s\<lparr>m_Password := provider 0, m_PasswordCallback := Some (\<lambda>n. provider (Suc n))\<rparr>,
           [PasswordCall (provider 0)], provider 0)
      | _ \<Rightarrow> (s, [], m_Password s))"

text \<open>
  The two other wrappers call a \<open>std::function\<close> member without a test. Calling an empty
  one raises \<open>std::bad_function_call\<close>: the result \<open>None\<close>.
\<close>

definition progressCallbackWrapper :: "ArchiveImpl \<Rightarrow> u64 \<Rightarrow> (effect list \<times> bool) option" where
  "progressCallbackWrapper s current =
     (if m_ProgressCallback s
      then Some ([ProgressCall (m_ProgressType s) current (m_Total s)], \<not> m_shouldCancel s)
      else None)"

definition fileChangeCallbackWrapper :: "ArchiveImpl \<Rightarrow> path \<Rightarrow> effect list option" where
  "fileChangeCallbackWrapper s p =
     (if m_FileChangeCallback s then Some [FileChangeCall (m_FileChangeType s) p] else None)"

subsection \<open>One call of the engine's \<open>extractTo\<close>\<close>

text \<open>
  What happens while the engine extracts is a list of events, chosen by the engine and
  by the other thread: a progress tick with the bytes done, the start of a file, a
  query for the password, a call of \<open>cancel()\<close> from the other thread, and a failure
  of the engine with its text.
\<close>

datatype event =
    Tick u64
  | FileStart path
  | PasswordQuery
  | CancelCall
  | EngineFault string

datatype ending = Completed | Thrown string | Bad_Function_Call

definition after_effects ::
  "effect list \<Rightarrow> ArchiveImpl \<times> effect list \<times> ending \<Rightarrow> ArchiveImpl \<times> effect list \<times> ending" where
  "after_effects fx res = (case res of (s, fx', e) \<Rightarrow> (s, fx @ fx', e))"

text \<open>
  Modelled from the spec: the engine is an external library; the spec (section 6) says
  that it takes a progress callback \<open>(bytesDone) -> continue:bool\<close> and a per-file
  callback, and raises an error for "operation aborted by callback returning false".
  So a tick calls the progress callback if one was set on the reader, and a \<open>false\<close>
  from it ends the run with a \<open>BitException\<close> (of text \<open>abort\<close>); the events after it do
  not happen. An exception of a wrapper ends the run as well.
\<close>

fun extractTo ::
  "string \<Rightarrow> BitArchiveReader \<Rightarrow> event list \<Rightarrow> ArchiveImpl \<Rightarrow> ArchiveImpl \<times> effect list \<times> ending" where
  "extractTo abort r [] s = (s, [], Completed)"
| "extractTo abort r (Tick current # es) s =
     (if progressCallback_set r then
        (case progressCallbackWrapper s current of
           None \<Rightarrow> (s, [], Bad_Function_Call)
         | Some (fx, continue) \<Rightarrow>
             if continue then after_effects fx (extractTo abort r es s)
             else (s, fx, Thrown abort))
      else extractTo abort r es s)"
| "extractTo abort r (FileStart p # es) s =
     (if fileCallback_set r then
        (case fileChangeCallbackWrapper s p of
           None \<Rightarrow> (s, [], Bad_Function_Call)
         | Some fx \<Rightarrow> after_effects fx (extractTo abort r es s))
      else extractTo abort r es s)"
| "extractTo abort r (PasswordQuery # es) s =
     (case passwordCallbackWrapper s of
        (s', fx, pw) \<Rightarrow> after_effects fx (extractTo abort r es s'))"
| "extractTo abort r (CancelCall # es) s = extractTo abort r es (cancel s)"
| "extractTo abort r (EngineFault what # es) s = (s, [], Thrown what)"

subsection \<open>\<open>extract\<close>\<close>

text \<open>
  What the surroundings do during one call of \<open>extract\<close>: whether the \<open>QTemporaryDir\<close> is
  valid (and its path), the events of the engine run, the text of the engine's abort
  exception, the error code of each file-system call (it may depend on the calls made
  before), and the path operations of \<open>std::filesystem\<close> (\<open>operator/\<close>,
  \<open>has_parent_path\<close>, \<open>parent_path\<close>).
\<close>

record run =
  temp_dir :: "path option"
  events :: "event list"
  abort_text :: string
  fs_result :: "(fs_op \<times> string option) list \<Rightarrow> fs_op \<Rightarrow> string option"
  slash :: "path \<Rightarrow> path \<Rightarrow> path"
  has_parent_path :: "path \<Rightarrow> bool"
  parent_path :: "path \<Rightarrow> path"

datatype outcome = Returns bool | Null_Dereference | Uncaught_Bad_Function_Call

text \<open>\<open>m_ArchivePtr->setFileCallback(...)\<close> and \<open>m_ArchivePtr->setProgressCallback(...)\<close>;
  \<open>None\<close> when \<open>m_ArchivePtr\<close> is null.\<close>

definition setFileCallback :: "ArchiveImpl \<Rightarrow> ArchiveImpl option" where
  "setFileCallback s =
     (case m_ArchivePtr s of
        None \<Rightarrow> None
      | Some r \<Rightarrow> Some (s\<lparr>m_ArchivePtr := Some (r\<lparr>fileCallback_set := True\<rparr>)\<rparr>))"

definition setProgressCallback :: "ArchiveImpl \<Rightarrow> ArchiveImpl option" where
  "setProgressCallback s =
     (case m_ArchivePtr s of
        None \<Rightarrow> None
      | Some r \<Rightarrow> Some (s\<lparr>m_ArchivePtr := Some (r\<lparr>progressCallback_set := True\<rparr>)\<rparr>))"

text \<open>
  The loop that retrieves the indices to extract: \<open>i\<close> is the loop counter, the pair
  holds \<open>indices\<close> and \<open>totalSize\<close>. \<open>push_back(i)\<close> converts the \<open>size_t\<close> counter to
  \<open>uint32_t\<close>.
\<close>

fun select_indices :: "FileDataImpl list \<Rightarrow> nat \<Rightarrow> u32 list \<times> u64 \<Rightarrow> u32 list \<times> u64" where
  "select_indices [] i acc = acc"
| "select_indices (fileData # rest) i (indices, totalSize) =
     select_indices rest (Suc i)
       (if \<not> isEmpty fileData then (indices @ [of_nat i], totalSize + getSize fileData)
        else (indices, totalSize))"

text \<open>
  The copy to the target locations. \<open>h\<close> is the list of the file-system calls made so
  far in this call of \<open>extract\<close>, each with its error code. Every loop returns the
  extended list and, when a call failed, the text for \<open>reportError\<close>; a failure ends
  all loops (\<open>return false\<close>).
\<close>

fun relocate_directory ::
  "run \<Rightarrow> path \<Rightarrow> path list \<Rightarrow> (fs_op \<times> string option) list
     \<Rightarrow> (fs_op \<times> string option) list \<times> string option" where
  "relocate_directory x outputDirectory [] h = (h, None)"
| "relocate_directory x outputDirectory (outputFilePath # ps) h =
     (let targetDirectory = slash x outputDirectory outputFilePath;
          ec = fs_result x h (CreateDirectories targetDirectory);
          h1 = h @ [(CreateDirectories targetDirectory, ec)]
      in case ec of
           Some message \<Rightarrow>
             (h1, Some (''Error creating output directory '' @ targetDirectory @ '': '' @ message))
         | None \<Rightarrow> relocate_directory x outputDirectory ps h1)"

fun relocate_file ::
  "run \<Rightarrow> path \<Rightarrow> path \<Rightarrow> path \<Rightarrow> path list \<Rightarrow> (fs_op \<times> string option) list
     \<Rightarrow> (fs_op \<times> string option) list \<times> string option" where
  "relocate_file x outputDirectory tmpDirNative archiveFilePath [] h = (h, None)"
| "relocate_file x outputDirectory tmpDirNative archiveFilePath (outputFilePath # ps) h =
     (let targetDirectory =
            (if has_parent_path x outputFilePath
             then slash x outputDirectory (parent_path x outputFilePath)
             else outputDirectory);
          ec = fs_result x h (CreateDirectories targetDirectory);
          h1 = h @ [(CreateDirectories targetDirectory, ec)]
      in case ec of
           Some message \<Rightarrow>
             (h1, Some (''Error creating output directory '' @ targetDirectory @ '': '' @ message))
         | None \<Rightarrow>
             (let source = slash x tmpDirNative archiveFilePath;
                  target = slash x outputDirectory outputFilePath;
                  ec2 = fs_result x h1 (CopyFile source target);
                  h2 = h1 @ [(CopyFile source target, ec2)]
              in case ec2 of
                   Some message \<Rightarrow>
                     (h2, Some (''Error writing to output file '' @ target @ '': '' @ message))
                 | None \<Rightarrow>
                     relocate_file x outputDirectory tmpDirNative archiveFilePath ps h2))"

fun relocate ::
  "run \<Rightarrow> path \<Rightarrow> path \<Rightarrow> FileDataImpl list \<Rightarrow> (fs_op \<times> string option) list
     \<Rightarrow> (fs_op \<times> string option) list \<times> string option" where
  "relocate x outputDirectory tmpDirNative [] h = (h, None)"
| "relocate x outputDirectory tmpDirNative (fileData # rest) h =
     (case (if isDirectory fileData
            then relocate_directory x outputDirectory (getOutputFilePaths fileData) h
            else relocate_file x outputDirectory tmpDirNative (getArchiveFilePath fileData)
                   (getOutputFilePaths fileData) h) of
        (h1, Some message) \<Rightarrow> (h1, Some message)
      | (h1, None) \<Rightarrow> relocate x outputDirectory tmpDirNative rest h1)"

definition fs_effects :: "(fs_op \<times> string option) list \<Rightarrow> effect list" where
  "fs_effects h = map (\<lambda>(op, ec). FsCall op ec) h"

text \<open>
  \<open>extract\<close> (the name is a keyword of Isabelle, hence the suffix), in two parts. The
  three callbacks are given as flags (\<open>True\<close>: a callable). A call through the null
  \<open>m_ArchivePtr\<close> ends the model with \<open>Null_Dereference\<close>; a \<open>std::bad_function_call\<close> is
  not a \<open>BitException\<close> and leaves \<open>extract\<close> uncaught. Calls of \<open>cancel()\<close> by the other
  thread are events of the engine run; one that comes while \<open>extract\<close> is elsewhere is a
  \<open>cancel\<close> before or after it.

  \<open>extract_staged\<close> is the body from \<open>QTemporaryDir tmpDir\<close> to the end, with the
  \<open>catch\<close> block. The \<open>QTemporaryDir\<close> is a local object: it removes its directory when
  \<open>extract\<close> returns, and before the \<open>catch\<close> block runs.
\<close>

definition extract_staged ::
  "run \<Rightarrow> ArchiveImpl \<Rightarrow> u32 list \<Rightarrow> path \<Rightarrow> ArchiveImpl \<times> effect list \<times> outcome" where
  "extract_staged x s indices outputDirectory =
     (case temp_dir x of
        None \<Rightarrow>
          (s\<lparr>m_LastError := ERROR_OUT_OF_MEMORY\<rparr>,
           TempDirCreate None #
             reportError s ''Error creating a temporary directory for extraction'',
           Returns False)
      | Some tmpDirNative \<Rightarrow>
          (case m_ArchivePtr s of
             None \<Rightarrow> (s, [TempDirCreate (Some tmpDirNative)], Null_Dereference)
           | Some reader \<Rightarrow>
               (case after_effects
                       [TempDirCreate (Some tmpDirNative), EngineExtractTo tmpDirNative indices]
                       (extractTo (abort_text x) reader (events x) s) of
                  (s4, fx, Bad_Function_Call) \<Rightarrow> (s4, fx, Uncaught_Bad_Function_Call)
                | (s4, fx, Thrown what) \<Rightarrow>
                    (s4\<lparr>m_LastError :=
                          (if m_shouldCancel s4 then ERROR_EXTRACT_CANCELLED
                           else ERROR_LIBRARY_ERROR)\<rparr>,
                     fx @ [TempDirRemove tmpDirNative] @ reportError s4 what,
                     Returns False)
                | (s4, fx, Completed) \<Rightarrow>
                    (case relocate x outputDirectory tmpDirNative (m_FileList s4) [] of
                       (h, Some message) \<Rightarrow>
                         (s4\<lparr>m_LastError := ERROR_LIBRARY_ERROR\<rparr>,
                          fx @ fs_effects h @ reportError s4 message @
                            [TempDirRemove tmpDirNative],
                          Returns False)
                     | (h, None) \<Rightarrow>
                         (s4, fx @ fs_effects h @ [TempDirRemove tmpDirNative],
                          Returns True)))))"

text \<open>
  The beginning of \<open>extract\<close>: the test of \<open>m_Valid\<close>, the assignment of the callbacks,
  \<open>setFileCallback\<close>, the loop over the entries and \<open>setProgressCallback\<close>. \<open>totalSize\<close> is
  computed and not used.
\<close>

definition extract_archive ::
  "run \<Rightarrow> ArchiveImpl \<Rightarrow> path \<Rightarrow> bool \<Rightarrow> bool \<Rightarrow> bool \<Rightarrow> ArchiveImpl \<times> effect list \<times> outcome" where
  "extract_archive x s outputDirectory progressCallback fileChangeCallback errorCallback =
     (if \<not> m_Valid s then (s, [], Returns False)
      else
        let s1 = s\<lparr>m_ProgressCallback := progressCallback,
                   m_FileChangeCallback := fileChangeCallback,
                   m_ErrorCallback := errorCallback\<rparr>
        in case (if m_FileChangeCallback s1
                 then setFileCallback (s1\<lparr>m_FileChangeType := EXTRACTION_START\<rparr>)
                 else Some s1) of
             None \<Rightarrow> (s1, [], Null_Dereference)
           | Some s2 \<Rightarrow>
               (case select_indices (m_FileList s2) 0 ([], 0) of
                  (indices, totalSize) \<Rightarrow>
                    (case (if m_ProgressCallback s2 then setProgressCallback s2 else Some s2) of
                       None \<Rightarrow> (s2, [], Null_Dereference)
                     | Some s3 \<Rightarrow> extract_staged x s3 indices outputDirectory)))"

subsection \<open>Notions used in the statements\<close>

text \<open>The caller's \<open>getFileList()[i]->addOutputFilePath(p)\<close>, for an index in range.\<close>

definition annotate :: "nat \<Rightarrow> path \<Rightarrow> ArchiveImpl \<Rightarrow> ArchiveImpl" where
  "annotate i p s = s\<lparr>m_FileList := (m_FileList s)[i := addOutputFilePath p (m_FileList s ! i)]\<rparr>"

fun is_progress :: "effect \<Rightarrow> bool" where
  "is_progress (ProgressCall t c n) = True"
| "is_progress e = False"

fun is_password_call :: "effect \<Rightarrow> bool" where
  "is_password_call (PasswordCall pw) = True"
| "is_password_call e = False"

fun is_fs_call :: "effect \<Rightarrow> bool" where
  "is_fs_call (FsCall op ec) = True"
| "is_fs_call e = False"

fun is_extractTo :: "effect \<Rightarrow> bool" where
  "is_extractTo (EngineExtractTo d idx) = True"
| "is_extractTo e = False"

text \<open>An event that is neither a progress tick nor a failure of the engine.\<close>

fun quiet :: "event \<Rightarrow> bool" where
  "quiet (Tick c) = False"
| "quiet (EngineFault what) = False"
| "quiet e = True"

text \<open>Whether the reader of the session holds the wrapper of the file-change callback.\<close>

definition file_relay_installed :: "ArchiveImpl \<Rightarrow> bool" where
  "file_relay_installed s = (case m_ArchivePtr s of None \<Rightarrow> False | Some r \<Rightarrow> fileCallback_set r)"

text \<open>
  What a run of the engine leaves as it is: every member but the password and its
  provider; the cancellation flag may become set, and is never cleared.
\<close>

definition kept :: "ArchiveImpl \<Rightarrow> ArchiveImpl \<Rightarrow> bool" where
  "kept s s' \<longleftrightarrow>
     m_LastError s' = m_LastError s \<and> m_Valid s' = m_Valid s \<and> m_Total s' = m_Total s \<and>
     m_FileList s' = m_FileList s \<and> m_ErrorCallback s' = m_ErrorCallback s \<and>
     m_ProgressCallback s' = m_ProgressCallback s \<and>
     m_FileChangeCallback s' = m_FileChangeCallback s \<and>
     m_ArchivePtr s' = m_ArchivePtr s \<and> m_ProgressType s' = m_ProgressType s \<and>
     m_FileChangeType s' = m_FileChangeType s \<and>
     (m_shouldCancel s \<longrightarrow> m_shouldCancel s')"

text \<open>
  What the beginning of \<open>extract\<close> makes of a session \<open>s\<close>, when it does not stop at a
  null pointer: the three callbacks are the given ones, the reader (if any) holds the
  relays of the given callbacks besides those it held, the rest is as in \<open>s\<close>.
\<close>

definition prepared :: "ArchiveImpl \<Rightarrow> bool \<Rightarrow> bool \<Rightarrow> bool \<Rightarrow> ArchiveImpl \<Rightarrow> bool" where
  "prepared s pc fc ec s3 \<longleftrightarrow>
     m_ProgressCallback s3 = pc \<and> m_FileChangeCallback s3 = fc \<and> m_ErrorCallback s3 = ec \<and>
     m_LastError s3 = m_LastError s \<and> m_Valid s3 = m_Valid s \<and> m_Total s3 = m_Total s \<and>
     m_FileList s3 = m_FileList s \<and> m_ProgressType s3 = m_ProgressType s \<and>
     m_shouldCancel s3 = m_shouldCancel s \<and> m_Password s3 = m_Password s \<and>
     m_PasswordCallback s3 = m_PasswordCallback s \<and>
     (case (m_ArchivePtr s, m_ArchivePtr s3) of
        (None, None) \<Rightarrow> \<not> pc \<and> \<not> fc
      | (Some r, Some r3) \<Rightarrow>
          fileCallback_set r3 = (fc \<or> fileCallback_set r) \<and>
          progressCallback_set r3 = (pc \<or> progressCallback_set r)
      | _ \<Rightarrow> False)"

text \<open>A file-system call that set an error code.\<close>

fun failed_call :: "effect \<Rightarrow> bool" where
  "failed_call (FsCall op (Some message)) = True"
| "failed_call e = False"

text \<open>The effects that a run of the engine can cause: calls of the three relays.\<close>

fun relayed :: "effect \<Rightarrow> bool" where
  "relayed (ProgressCall t c n) = True"
| "relayed (FileChangeCall t p) = True"
| "relayed (PasswordCall pw) = True"
| "relayed e = False"

text \<open>The path that a file-system call was to create or to write.\<close>

fun op_target :: "fs_op \<Rightarrow> path" where
  "op_target (CreateDirectories d) = d"
| "op_target (CopyFile source target) = target"

text \<open>The part of an entry that the engine reported.\<close>

definition entry_view :: "FileDataImpl \<Rightarrow> path \<times> u64 \<times> u64 \<times> bool" where
  "entry_view f = (getArchiveFilePath f, getSize f, getCRC f, isDirectory f)"

definition item_view :: "item \<Rightarrow> path \<times> u64 \<times> u64 \<times> bool" where
  "item_view it = (item_path it, item_size it, item_crc it, item_isDir it)"

text \<open>
  How a loop of the copy phase continues the list \<open>h\<close> of file-system calls: with calls
  that set no error, and, when it reports a failure, one last call that set an error
  and whose path is part of the text reported.
\<close>

definition continues ::
  "(fs_op \<times> string option) list \<Rightarrow> (fs_op \<times> string option) list \<times> string option \<Rightarrow> bool" where
  "continues h res \<longleftrightarrow>
     (\<exists>k. list_all (\<lambda>e. snd e = None) k \<and>
        (case snd res of
           None \<Rightarrow> fst res = h @ k
         | Some text \<Rightarrow>
             \<exists>op m. fst res = h @ k @ [(op, Some m)] \<and> sublist (op_target op) text))"

text \<open>The session with other sizes for its entries: \<open>g f\<close> instead of the size of \<open>f\<close>.\<close>

definition resize :: "(FileDataImpl \<Rightarrow> u64) \<Rightarrow> ArchiveImpl \<Rightarrow> ArchiveImpl" where
  "resize g s = s\<lparr>m_FileList := map (\<lambda>f. f\<lparr>m_Size := g f\<rparr>) (m_FileList s)\<rparr>"

subsection \<open>A concrete archive, for evaluation\<close>

text \<open>
  The archive of the spec's scenario: \<open>a.txt\<close> of 10 bytes and \<open>dir/b.txt\<close> of 20 bytes,
  with a directory entry \<open>dir\<close> between them.
\<close>

definition demo_items :: "item list" where
  "demo_items =
     [\<lparr>item_path = ''a.txt'', item_size = 10, item_crc = 1, item_isDir = False, item_index = 0\<rparr>,
      \<lparr>item_path = ''dir'', item_size = 0, item_crc = 0, item_isDir = True, item_index = 1\<rparr>,
      \<lparr>item_path = ''dir/b.txt'', item_size = 20, item_crc = 2, item_isDir = False, item_index = 2\<rparr>]"

definition demo_reader :: BitArchiveReader where
  "demo_reader =
     \<lparr>reader_size = Inr 30, reader_items = demo_items, reader_items_fault = None,
      progressCallback_set = False, fileCallback_set = False\<rparr>"

definition demo_world :: world where
  "demo_world =
     \<lparr>load_library = (\<lambda>p. None),
      file_status = (\<lambda>p. if p = ''archive.zip'' then Other_File
                          else if p = ''folder'' then Directory else Missing),
      new_BitArchiveReader = (\<lambda>p. Inr demo_reader),
      error_number = (\<lambda>e. ''0'')\<rparr>"

text \<open>A run in which nothing fails and the engine raises no event.\<close>

definition demo_run :: run where
  "demo_run =
     \<lparr>temp_dir = Some ''/tmp/qt'', events = [], abort_text = ''aborted'',
      fs_result = (\<lambda>h op. None),
      slash = (\<lambda>a b. a @ ''/'' @ b),
      has_parent_path = (\<lambda>p. CHR ''/'' \<in> set p),
      parent_path = (\<lambda>p. rev (tl (dropWhile (\<lambda>c. c \<noteq> CHR ''/'') (rev p))))\<rparr>"

definition session_opened :: "(nat \<Rightarrow> string) option \<Rightarrow> ArchiveImpl" where
  "session_opened provider =
     fst (open_archive demo_world (new_ArchiveImpl demo_world) ''archive.zip'' provider)"

text \<open>The caller selects \<open>a.txt\<close> (to one place) and \<open>dir\<close> (to one place).\<close>

definition session_selected :: "(nat \<Rightarrow> string) option \<Rightarrow> ArchiveImpl" where
  "session_selected provider =
     annotate 1 ''out/dir'' (annotate 0 ''out/a.txt'' (session_opened provider))"

text \<open>Runs in which the engine raises the given events, and runs in which something fails.\<close>

definition run_with :: "event list \<Rightarrow> run" where
  "run_with es = demo_run\<lparr>events := es\<rparr>"

definition run_denied :: run where
  "run_denied = demo_run\<lparr>fs_result := (\<lambda>h op. if length h = 2 then Some ''denied'' else None)\<rparr>"

definition run_no_temp :: run where
  "run_no_temp = demo_run\<lparr>temp_dir := None\<rparr>"

text \<open>The session after an \<open>extract\<close> during which the engine failed.\<close>

definition session_failed :: ArchiveImpl where
  "session_failed =
     fst (extract_archive (run_with [EngineFault ''data error'']) (session_selected None)
            ''/dest'' False False False)"

text \<open>The session after an \<open>extract\<close> during which the other thread called \<open>cancel()\<close>.\<close>

definition session_cancelled :: ArchiveImpl where
  "session_cancelled =
     fst (extract_archive (run_with [CancelCall, Tick 5]) (session_selected None)
            ''/dest'' True False False)"

text \<open>
  The session after an \<open>extract\<close> during which the engine asked for the password once
  and the provider answered \<open>secret\<close>.
\<close>

definition session_with_password :: ArchiveImpl where
  "session_with_password =
     fst (extract_archive (run_with [PasswordQuery]) (session_selected (Some (\<lambda>n. ''secret'')))
            ''/dest'' False False False)"

text \<open>A provider that answers with the empty string first (the user dismissed the
  prompt) and with \<open>secret\<close> afterwards.\<close>

definition dismissed_once :: "nat \<Rightarrow> string" where
  "dismissed_once n = (if n = 0 then [] else ''secret'')"

section \<open>Lemmas\<close>

subsection \<open>Evaluation of the concrete archive\<close>

lemma demo_new:
  "new_ArchiveImpl demo_world =
     \<lparr>m_Valid = True, m_Nested = False, m_LastError = ERROR_NONE, m_shouldCancel = False,
      m_Library = Some ''lib/lib7zip.so'', m_ArchivePtr = None, m_ProgressType = EXTRACTION,
      m_Total = 0, m_FileChangeType = EXTRACTION_START, m_ProgressCallback = False,
      m_FileChangeCallback = False, m_LogCallback = False, m_ErrorCallback = False,
      m_PasswordCallback = None, m_FileList = [], m_FileMap = Map.empty, m_Password = []\<rparr>"
  by (simp add: new_ArchiveImpl_def demo_world_def libraryPaths_def Let_def)

lemma demo_open:
  "open_archive demo_world (new_ArchiveImpl demo_world) ''archive.zip'' pw =
     (session_opened pw, [], True)"
  by (simp add: session_opened_def open_archive_def demo_new)
    (simp add: demo_world_def demo_reader_def)

lemma demo_opened:
  "session_opened pw =
     \<lparr>m_Valid = True, m_Nested = False, m_LastError = ERROR_NONE, m_shouldCancel = False,
      m_Library = Some ''lib/lib7zip.so'', m_ArchivePtr = Some demo_reader,
      m_ProgressType = EXTRACTION,
      m_Total = 30, m_FileChangeType = EXTRACTION_START, m_ProgressCallback = False,
      m_FileChangeCallback = False, m_LogCallback = False, m_ErrorCallback = False,
      m_PasswordCallback = pw,
      m_FileList = [new_FileDataImpl ''a.txt'' 10 1 False, new_FileDataImpl ''dir'' 0 0 True,
                    new_FileDataImpl ''dir/b.txt'' 20 2 False],
      m_FileMap = [''a.txt'' \<mapsto> 0, ''dir'' \<mapsto> 1, ''dir/b.txt'' \<mapsto> 2], m_Password = []\<rparr>"
  by (simp add: session_opened_def open_archive_def demo_new)
    (simp add: demo_world_def demo_reader_def resetFileList_def clearFileList_def demo_items_def
      push_item_def)

lemma demo_selected:
  "session_selected pw =
     (session_opened pw)\<lparr>m_FileList :=
        [addOutputFilePath ''out/a.txt'' (new_FileDataImpl ''a.txt'' 10 1 False),
         addOutputFilePath ''out/dir'' (new_FileDataImpl ''dir'' 0 0 True),
         new_FileDataImpl ''dir/b.txt'' 20 2 False]\<rparr>"
  by (simp add: session_selected_def annotate_def demo_opened)

subsection \<open>The run of the engine, the index list, the entry list\<close>

lemma kept_refl: "kept s s"
  by (simp add: kept_def)

lemma kept_trans: "kept s t \<Longrightarrow> kept t u \<Longrightarrow> kept s u"
  by (simp add: kept_def)

lemma kept_cancel: "kept s (cancel s)"
  by (simp add: kept_def cancel_def)

lemma kept_password: "kept s (fst (passwordCallbackWrapper s))"
  by (simp add: kept_def passwordCallbackWrapper_def split: bool.splits option.splits)

lemma fst_after_effects: "fst (after_effects fx res) = fst res"
  by (cases res) (simp add: after_effects_def)

lemma effects_after_effects: "fst (snd (after_effects fx res)) = fx @ fst (snd res)"
  by (cases res) (simp add: after_effects_def)

lemma ending_after_effects: "snd (snd (after_effects fx res)) = snd (snd res)"
  by (cases res) (simp add: after_effects_def)

lemma extractTo_kept: "kept s (fst (extractTo abort r es s))"
proof (induction es arbitrary: s)
  case Nil
  show ?case by (simp add: kept_refl)
next
  case (Cons ev es)
  show ?case
  proof (cases ev)
    case (Tick c)
    then show ?thesis using Cons[of s]
      by (simp add: kept_refl fst_after_effects split: option.splits prod.splits)
  next
    case (FileStart p)
    then show ?thesis using Cons[of s]
      by (simp add: kept_refl fst_after_effects split: option.splits)
  next
    case PasswordQuery
    then show ?thesis
      using Cons[of "fst (passwordCallbackWrapper s)"] kept_password[of s]
      by (auto simp: fst_after_effects split: prod.splits intro: kept_trans)
  next
    case CancelCall
    then show ?thesis using Cons[of "cancel s"] kept_cancel[of s]
      by (auto intro: kept_trans)
  next
    case (EngineFault w)
    then show ?thesis by (simp add: kept_refl)
  qed
qed

text \<open>The effects of a run of the engine.\<close>

lemma password_effects:
  "e \<in> set (fst (snd (passwordCallbackWrapper s))) \<Longrightarrow> is_password_call e"
  by (auto simp: passwordCallbackWrapper_def split: bool.splits option.splits)

lemma extractTo_effects:
  "e \<in> set (fst (snd (extractTo abort r es s))) \<Longrightarrow>
     relayed e \<and> (\<forall>t c n. e = ProgressCall t c n \<longrightarrow> t = m_ProgressType s \<and> n = m_Total s)"
proof (induction es arbitrary: s)
  case Nil
  then show ?case by simp
next
  case (Cons ev es)
  show ?case
  proof (cases ev)
    case (Tick c)
    then show ?thesis using Cons.prems Cons.IH[of s]
      by (auto simp: effects_after_effects progressCallbackWrapper_def split: if_splits)
  next
    case (FileStart p)
    then show ?thesis using Cons.prems Cons.IH[of s]
      by (auto simp: effects_after_effects fileChangeCallbackWrapper_def split: if_splits)
  next
    case PasswordQuery
    have k: "kept s (fst (passwordCallbackWrapper s))" by (rule kept_password)
    from PasswordQuery Cons.prems
    have "e \<in> set (fst (snd (passwordCallbackWrapper s))) \<or>
          e \<in> set (fst (snd (extractTo abort r es (fst (passwordCallbackWrapper s)))))"
      by (auto simp: effects_after_effects split: prod.splits)
    then show ?thesis
    proof
      assume "e \<in> set (fst (snd (passwordCallbackWrapper s)))"
      then have "is_password_call e" by (rule password_effects)
      then show ?thesis by (cases e) auto
    next
      assume "e \<in> set (fst (snd (extractTo abort r es (fst (passwordCallbackWrapper s)))))"
      from Cons.IH[OF this] k show ?thesis by (simp add: kept_def)
    qed
  next
    case CancelCall
    then show ?thesis using Cons.prems Cons.IH[of "cancel s"]
      by (simp add: cancel_def)
  next
    case (EngineFault w)
    then show ?thesis using Cons.prems by simp
  qed
qed

text \<open>The list of indices, as numbers.\<close>

lemma select_indices_fst:
  "fst (select_indices fl i (idx, t)) =
     idx @ map (\<lambda>j. of_nat (i + j)) [j \<leftarrow> [0..<length fl]. \<not> isEmpty (fl ! j)]"
proof (induction fl arbitrary: i idx t)
  case Nil
  then show ?case by simp
next
  case (Cons f fl)
  have up: "[0..<Suc (length fl)] = 0 # map Suc [0..<length fl]"
    by (simp add: upt_conv_Cons map_Suc_upt del: upt_Suc)
  show ?case
    by (simp add: Cons.IH up filter_map o_def del: upt_Suc of_nat_add of_nat_Suc)
qed

lemma select_indices_unat:
  assumes "length fl \<le> 2 ^ 32"
  shows "map unat (fst (select_indices fl 0 ([], 0))) =
           [j \<leftarrow> [0..<length fl]. \<not> isEmpty (fl ! j)]"
proof -
  have "map unat (map (\<lambda>j. of_nat (0 + j) :: u32) [j \<leftarrow> [0..<length fl]. \<not> isEmpty (fl ! j)]) =
        map (\<lambda>j. j) [j \<leftarrow> [0..<length fl]. \<not> isEmpty (fl ! j)]"
    unfolding map_map
  proof (rule map_cong[OF refl])
    fix j assume "j \<in> set [j \<leftarrow> [0..<length fl]. \<not> isEmpty (fl ! j)]"
    then have "j < 2 ^ LENGTH(32)" using assms by auto
    then show "(unat \<circ> (\<lambda>j. of_nat (0 + j) :: u32)) j = j"
      by (simp add: of_nat_inverse)
  qed
  then show ?thesis by (simp add: select_indices_fst)
qed


lemma fold_push_item_FileList:
  "m_FileList (fold push_item its s) =
     m_FileList s @
       map (\<lambda>it. new_FileDataImpl (item_path it) (item_size it) (item_crc it) (item_isDir it)) its"
  by (induction its arbitrary: s) (simp_all add: push_item_def)

lemma resetFileList_FileList:
  "m_FileList (resetFileList rd s) =
     map (\<lambda>it. new_FileDataImpl (item_path it) (item_size it) (item_crc it) (item_isDir it))
       (reader_items rd)"
  by (simp add: resetFileList_def fold_push_item_FileList clearFileList_def)

lemma open_archive_True:
  assumes "open_archive w s p pw = (s', fx, True)"
  shows "\<exists>rd total. new_BitArchiveReader w p = Inr rd \<and> reader_size rd = Inr total \<and>
           reader_items_fault rd = None \<and> fx = [] \<and> m_Valid s \<and>
           s' = resetFileList rd
                  (s\<lparr>m_ArchivePtr := Some rd, m_PasswordCallback := pw, m_Total := total,
                     m_LastError := ERROR_NONE\<rparr>)"
  using assms
  by (simp add: open_archive_def Let_def split: if_splits sum.splits option.splits)

lemma fold_push_item_other:
  "m_LastError (fold push_item its s) = m_LastError s \<and>
   m_Total (fold push_item its s) = m_Total s \<and>
   m_shouldCancel (fold push_item its s) = m_shouldCancel s \<and>
   m_ArchivePtr (fold push_item its s) = m_ArchivePtr s \<and>
   m_Password (fold push_item its s) = m_Password s \<and>
   m_Valid (fold push_item its s) = m_Valid s"
  by (induction its arbitrary: s) (simp_all add: push_item_def)

lemma resetFileList_other:
  "m_LastError (resetFileList rd s) = m_LastError s \<and>
   m_Total (resetFileList rd s) = m_Total s \<and>
   m_shouldCancel (resetFileList rd s) = m_shouldCancel s \<and>
   m_ArchivePtr (resetFileList rd s) = m_ArchivePtr s \<and>
   m_Password (resetFileList rd s) = m_Password s \<and>
   m_Valid (resetFileList rd s) = m_Valid s"
  by (simp add: resetFileList_def fold_push_item_other clearFileList_def)

lemma extract_archive_invalid:
  "\<not> m_Valid s \<Longrightarrow> extract_archive x s out pc fc ec = (s, [], Returns False)"
  by (simp add: extract_archive_def)

lemma ptr_update_same:
  "m_ArchivePtr s = Some r \<Longrightarrow>
     s\<lparr>m_ProgressCallback := a, m_FileChangeCallback := b, m_ErrorCallback := c,
       m_ArchivePtr := Some r\<rparr> =
     s\<lparr>m_ProgressCallback := a, m_FileChangeCallback := b, m_ErrorCallback := c\<rparr>"
  by (cases s) simp

lemma extract_archive_cases:
  assumes "m_Valid s"
  shows "(\<exists>s3. extract_archive x s out pc fc ec =
                  extract_staged x s3 (fst (select_indices (m_FileList s) 0 ([], 0))) out \<and>
               prepared s pc fc ec s3) \<or>
         (m_ArchivePtr s = None \<and> (pc \<or> fc) \<and>
          snd (extract_archive x s out pc fc ec) = ([], Null_Dereference) \<and>
          m_shouldCancel (fst (extract_archive x s out pc fc ec)) = m_shouldCancel s)"
proof (cases "m_ArchivePtr s")
  case None
  show ?thesis
  proof (cases "pc \<or> fc")
    case True
    then show ?thesis using assms None
      by (auto simp: extract_archive_def setFileCallback_def setProgressCallback_def Let_def
          split: prod.splits)
  next
    case False
    then have "extract_archive x s out pc fc ec =
        extract_staged x (s\<lparr>m_ProgressCallback := pc, m_FileChangeCallback := fc,
                             m_ErrorCallback := ec\<rparr>)
          (fst (select_indices (m_FileList s) 0 ([], 0))) out"
      using assms by (simp add: extract_archive_def Let_def split: prod.splits)
    moreover have "prepared s pc fc ec (s\<lparr>m_ProgressCallback := pc, m_FileChangeCallback := fc,
                             m_ErrorCallback := ec\<rparr>)"
      using False None by (simp add: prepared_def)
    ultimately show ?thesis by blast
  qed
next
  case (Some r)
  let ?s3 = "s\<lparr>m_ProgressCallback := pc, m_FileChangeCallback := fc, m_ErrorCallback := ec,
               m_FileChangeType := (if fc then EXTRACTION_START else m_FileChangeType s),
               m_ArchivePtr := Some (r\<lparr>fileCallback_set := fc \<or> fileCallback_set r,
                                       progressCallback_set := pc \<or> progressCallback_set r\<rparr>)\<rparr>"
  have "extract_archive x s out pc fc ec =
        extract_staged x ?s3 (fst (select_indices (m_FileList s) 0 ([], 0))) out"
    using assms Some
    by (cases pc; cases fc)
      (simp_all add: extract_archive_def setFileCallback_def setProgressCallback_def Let_def
        ptr_update_same split: prod.splits)
  moreover have "prepared s pc fc ec ?s3"
    using Some by (simp add: prepared_def)
  ultimately show ?thesis by blast
qed


lemma extract_staged_cases:
  assumes "extract_staged x s3 idx out = (s', fx, r)"
  obtains
    (no_temp) "temp_dir x = None" "s' = s3\<lparr>m_LastError := ERROR_OUT_OF_MEMORY\<rparr>"
      "fx = TempDirCreate None #
              reportError s3 ''Error creating a temporary directory for extraction''"
      "r = Returns False"
  | (null) tmp where "temp_dir x = Some tmp" "m_ArchivePtr s3 = None" "s' = s3"
      "fx = [TempDirCreate (Some tmp)]" "r = Null_Dereference"
  | (bad) tmp reader fx1 where "temp_dir x = Some tmp" "m_ArchivePtr s3 = Some reader"
      "extractTo (abort_text x) reader (events x) s3 = (s', fx1, Bad_Function_Call)"
      "fx = [TempDirCreate (Some tmp), EngineExtractTo tmp idx] @ fx1"
      "r = Uncaught_Bad_Function_Call"
  | (thrown) tmp reader s4 fx1 what where "temp_dir x = Some tmp" "m_ArchivePtr s3 = Some reader"
      "extractTo (abort_text x) reader (events x) s3 = (s4, fx1, Thrown what)"
      "s' = s4\<lparr>m_LastError := (if m_shouldCancel s4 then ERROR_EXTRACT_CANCELLED
                                   else ERROR_LIBRARY_ERROR)\<rparr>"
      "fx = [TempDirCreate (Some tmp), EngineExtractTo tmp idx] @ fx1 @ [TempDirRemove tmp] @
              reportError s4 what"
      "r = Returns False"
  | (failed) tmp reader s4 fx1 h message where "temp_dir x = Some tmp"
      "m_ArchivePtr s3 = Some reader"
      "extractTo (abort_text x) reader (events x) s3 = (s4, fx1, Completed)"
      "relocate x out tmp (m_FileList s4) [] = (h, Some message)"
      "s' = s4\<lparr>m_LastError := ERROR_LIBRARY_ERROR\<rparr>"
      "fx = [TempDirCreate (Some tmp), EngineExtractTo tmp idx] @ fx1 @ fs_effects h @
              reportError s4 message @ [TempDirRemove tmp]"
      "r = Returns False"
  | (finished) tmp reader fx1 h where "temp_dir x = Some tmp" "m_ArchivePtr s3 = Some reader"
      "extractTo (abort_text x) reader (events x) s3 = (s', fx1, Completed)"
      "relocate x out tmp (m_FileList s') [] = (h, None)"
      "fx = [TempDirCreate (Some tmp), EngineExtractTo tmp idx] @ fx1 @ fs_effects h @
              [TempDirRemove tmp]"
      "r = Returns True"
proof (cases "temp_dir x")
  case None
  have "s' = s3\<lparr>m_LastError := ERROR_OUT_OF_MEMORY\<rparr> \<and>
        fx = TempDirCreate None #
               reportError s3 ''Error creating a temporary directory for extraction'' \<and>
        r = Returns False"
    using assms None by (simp add: extract_staged_def)
  then show ?thesis using no_temp[OF None] by blast
next
  case (Some tmp)
  note tmp = this
  show ?thesis
  proof (cases "m_ArchivePtr s3")
    case None
    have "s' = s3 \<and> fx = [TempDirCreate (Some tmp)] \<and> r = Null_Dereference"
      using assms tmp None by (simp add: extract_staged_def)
    then show ?thesis using null[OF tmp None] by blast
  next
    case (Some reader)
    note reader = this
    obtain s4 fx1 e where run: "extractTo (abort_text x) reader (events x) s3 = (s4, fx1, e)"
      by (cases "extractTo (abort_text x) reader (events x) s3") auto
    show ?thesis
    proof (cases e)
      case Completed
      note run' = run[unfolded Completed]
      obtain h res where rel: "relocate x out tmp (m_FileList s4) [] = (h, res)"
        by (cases "relocate x out tmp (m_FileList s4) []") auto
      show ?thesis
      proof (cases res)
        case None
        have *: "s' = s4 \<and> fx = [TempDirCreate (Some tmp), EngineExtractTo tmp idx] @ fx1 @
                fs_effects h @ [TempDirRemove tmp] \<and> r = Returns True"
          using assms tmp reader run' rel None
          by (simp add: extract_staged_def after_effects_def)
        show ?thesis
          using finished[OF tmp reader, of fx1 h] run' rel[unfolded None] * by blast
      next
        case (Some message)
        have *: "s' = s4\<lparr>m_LastError := ERROR_LIBRARY_ERROR\<rparr> \<and>
              fx = [TempDirCreate (Some tmp), EngineExtractTo tmp idx] @ fx1 @ fs_effects h @
                reportError s4 message @ [TempDirRemove tmp] \<and> r = Returns False"
          using assms tmp reader run' rel Some
          by (simp add: extract_staged_def after_effects_def)
        show ?thesis
          using failed[OF tmp reader run' rel[unfolded Some]] * by blast
      qed
    next
      case (Thrown what)
      note run' = run[unfolded Thrown]
      have *: "s' = s4\<lparr>m_LastError := (if m_shouldCancel s4 then ERROR_EXTRACT_CANCELLED
                                   else ERROR_LIBRARY_ERROR)\<rparr> \<and>
            fx = [TempDirCreate (Some tmp), EngineExtractTo tmp idx] @ fx1 @
                   [TempDirRemove tmp] @ reportError s4 what \<and> r = Returns False"
        using assms tmp reader run'
        by (simp add: extract_staged_def after_effects_def)
      show ?thesis using thrown[OF tmp reader run'] * by blast
    next
      case Bad_Function_Call
      note run' = run[unfolded Bad_Function_Call]
      have *: "s' = s4 \<and> fx = [TempDirCreate (Some tmp), EngineExtractTo tmp idx] @ fx1 \<and>
            r = Uncaught_Bad_Function_Call"
        using assms tmp reader run'
        by (simp add: extract_staged_def after_effects_def)
      show ?thesis using bad[OF tmp reader, of fx1] run' * by blast
    qed
  qed
qed


lemma extractTo_halts:
  assumes "progressCallback_set r" and "m_ProgressCallback s"
    and "fileCallback_set r \<longrightarrow> m_FileChangeCallback s"
    and "list_all quiet pre" and "m_shouldCancel s \<or> CancelCall \<in> set pre"
  shows "\<exists>s' fx0. extractTo abort r (pre @ Tick c # post) s =
                     (s', fx0 @ [ProgressCall (m_ProgressType s) c (m_Total s)], Thrown abort) \<and>
                   \<not> list_ex is_progress fx0 \<and> m_shouldCancel s'"
  using assms
proof (induction pre arbitrary: s)
  case Nil
  then show ?case by (simp add: progressCallbackWrapper_def)
next
  case (Cons ev pre)
  show ?case
  proof (cases ev)
    case (Tick c')
    then show ?thesis using Cons.prems by simp
  next
    case (EngineFault w)
    then show ?thesis using Cons.prems by simp
  next
    case (FileStart p)
    have c: "m_shouldCancel s \<or> CancelCall \<in> set pre" using Cons.prems FileStart by auto
    from Cons.IH[OF Cons.prems(1,2,3) _ c] Cons.prems(4)
    obtain s' fx0 where
      run: "extractTo abort r (pre @ Tick c # post) s =
              (s', fx0 @ [ProgressCall (m_ProgressType s) c (m_Total s)], Thrown abort)" and
      rest: "\<not> list_ex is_progress fx0" "m_shouldCancel s'"
      by auto
    show ?thesis
    proof (cases "fileCallback_set r")
      case True
      then have "extractTo abort r ((ev # pre) @ Tick c # post) s =
          (s', (FileChangeCall (m_FileChangeType s) p # fx0) @
                 [ProgressCall (m_ProgressType s) c (m_Total s)], Thrown abort)"
        using FileStart run Cons.prems(3)
        by (simp add: fileChangeCallbackWrapper_def after_effects_def)
      moreover have "\<not> list_ex is_progress (FileChangeCall (m_FileChangeType s) p # fx0)"
        using rest by simp
      ultimately show ?thesis using rest by blast
    next
      case False
      then have "extractTo abort r ((ev # pre) @ Tick c # post) s =
          (s', fx0 @ [ProgressCall (m_ProgressType s) c (m_Total s)], Thrown abort)"
        using FileStart run by simp
      then show ?thesis using rest by blast
    qed
  next
    case PasswordQuery
    obtain s1 fx1 pw where w: "passwordCallbackWrapper s = (s1, fx1, pw)"
      by (cases "passwordCallbackWrapper s") auto
    have k: "kept s s1" using kept_password[of s] w by simp
    have p1: "m_ProgressCallback s1" "fileCallback_set r \<longrightarrow> m_FileChangeCallback s1"
      "m_shouldCancel s1 \<or> CancelCall \<in> set pre" "list_all quiet pre"
      using k Cons.prems PasswordQuery by (auto simp: kept_def)
    from Cons.IH[OF Cons.prems(1) p1(1,2,4,3)]
    obtain s' fx0 where
      run: "extractTo abort r (pre @ Tick c # post) s1 =
              (s', fx0 @ [ProgressCall (m_ProgressType s1) c (m_Total s1)], Thrown abort)" and
      rest: "\<not> list_ex is_progress fx0" "m_shouldCancel s'"
      by auto
    have same: "m_ProgressType s1 = m_ProgressType s" "m_Total s1 = m_Total s"
      using k by (simp_all add: kept_def)
    have "extractTo abort r ((ev # pre) @ Tick c # post) s =
          (s', (fx1 @ fx0) @ [ProgressCall (m_ProgressType s) c (m_Total s)], Thrown abort)"
      using PasswordQuery w run same by (simp add: after_effects_def)
    moreover have "\<not> list_ex is_progress (fx1 @ fx0)"
    proof -
      have "\<forall>e \<in> set fx1. is_password_call e"
        using password_effects[of _ s] w by simp
      then have "\<forall>e \<in> set fx1. \<not> is_progress e"
        by (metis is_password_call.elims(2) is_progress.simps(5))
      then show ?thesis using rest by (auto simp: list_ex_iff)
    qed
    ultimately show ?thesis using rest by blast
  next
    case CancelCall
    have p1: "m_ProgressCallback (cancel s)"
      "fileCallback_set r \<longrightarrow> m_FileChangeCallback (cancel s)"
      "m_shouldCancel (cancel s) \<or> CancelCall \<in> set pre" "list_all quiet pre"
      using Cons.prems by (auto simp: cancel_def)
    from Cons.IH[OF Cons.prems(1) p1(1,2,4,3)]
    show ?thesis using CancelCall by (simp add: cancel_def)
  qed
qed

lemma extract_archive_halts:
  assumes valid: "m_Valid s" and opened: "m_ArchivePtr s \<noteq> None"
    and tmp: "temp_dir x = Some tmp"
    and ev: "events x = pre @ Tick c # post" and quiet: "list_all quiet pre"
    and flag: "m_shouldCancel s \<or> CancelCall \<in> set pre"
    and relay: "file_relay_installed s \<longrightarrow> fc"
  shows "\<exists>s' fx0. extract_archive x s out True fc ec =
            (s', fx0 @ [ProgressCall (m_ProgressType s) c (m_Total s), TempDirRemove tmp] @
                   (if ec then [ErrorCall (abort_text x)] else []), Returns False) \<and>
          \<not> list_ex is_progress fx0 \<and> m_LastError s' = ERROR_EXTRACT_CANCELLED \<and>
          m_shouldCancel s' \<and> m_Valid s' \<and> m_ArchivePtr s' \<noteq> None \<and>
          progressCallbackWrapper s' c =
            Some ([ProgressCall (m_ProgressType s) c (m_Total s)], False)"
proof -
  obtain r where r: "m_ArchivePtr s = Some r" using opened by auto
  from extract_archive_cases[OF valid, of x out True fc ec] r
  obtain s3 where
    ex: "extract_archive x s out True fc ec =
           extract_staged x s3 (fst (select_indices (m_FileList s) 0 ([], 0))) out" and
    prep: "prepared s True fc ec s3"
    by auto
  from prep r obtain r3 where r3: "m_ArchivePtr s3 = Some r3"
    "fileCallback_set r3 = (fc \<or> fileCallback_set r)" "progressCallback_set r3"
    by (auto simp: prepared_def split: option.splits)
  have p3: "m_ProgressCallback s3" "m_FileChangeCallback s3 = fc" "m_ErrorCallback s3 = ec"
    "m_shouldCancel s3 = m_shouldCancel s" "m_ProgressType s3 = m_ProgressType s"
    "m_Total s3 = m_Total s" "m_Valid s3"
    using prep valid by (simp_all add: prepared_def)
  have f3: "fileCallback_set r3 \<longrightarrow> m_FileChangeCallback s3"
    using r3 p3 relay r by (auto simp: file_relay_installed_def)
  have c3: "m_shouldCancel s3 \<or> CancelCall \<in> set pre" using flag p3 by simp
  from extractTo_halts[OF r3(3) p3(1) f3 quiet c3, of "abort_text x" c post]
  obtain s4 fx0 where
    run: "extractTo (abort_text x) r3 (events x) s3 =
            (s4, fx0 @ [ProgressCall (m_ProgressType s) c (m_Total s)], Thrown (abort_text x))" and
    rest: "\<not> list_ex is_progress fx0" "m_shouldCancel s4"
    using ev p3 by auto
  have k: "kept s3 s4" using extractTo_kept[of s3 "abort_text x" r3 "events x"] run by simp
  let ?s' = "s4\<lparr>m_LastError := ERROR_EXTRACT_CANCELLED\<rparr>"
  let ?idx = "fst (select_indices (m_FileList s) 0 ([], 0))"
  have "extract_archive x s out True fc ec =
      (?s', ([TempDirCreate (Some tmp), EngineExtractTo tmp ?idx] @ fx0) @
            [ProgressCall (m_ProgressType s) c (m_Total s), TempDirRemove tmp] @
            (if ec then [ErrorCall (abort_text x)] else []), Returns False)"
    using ex tmp r3 run rest k p3
    by (simp add: extract_staged_def after_effects_def reportError_def kept_def)
  moreover have "\<not> list_ex is_progress ([TempDirCreate (Some tmp), EngineExtractTo tmp ?idx] @ fx0)"
    using rest by simp
  moreover have "m_LastError ?s' = ERROR_EXTRACT_CANCELLED \<and> m_shouldCancel ?s' \<and>
      m_Valid ?s' \<and> m_ArchivePtr ?s' \<noteq> None \<and>
      progressCallbackWrapper ?s' c =
        Some ([ProgressCall (m_ProgressType s) c (m_Total s)], False)"
    using rest k p3 r3 by (simp add: progressCallbackWrapper_def kept_def)
  ultimately show ?thesis by blast
qed

lemma extract_archive_keeps_flag:
  assumes "m_shouldCancel s"
  shows "m_shouldCancel (fst (extract_archive x s out pc fc ec))"
proof (cases "m_Valid s")
  case False
  then show ?thesis using assms by (simp add: extract_archive_invalid)
next
  case True
  from extract_archive_cases[OF True, of x out pc fc ec]
  show ?thesis
  proof
    assume "\<exists>s3. extract_archive x s out pc fc ec =
                  extract_staged x s3 (fst (select_indices (m_FileList s) 0 ([], 0))) out \<and>
               prepared s pc fc ec s3"
    then obtain s3 where
      ex: "extract_archive x s out pc fc ec =
             extract_staged x s3 (fst (select_indices (m_FileList s) 0 ([], 0))) out" and
      prep: "prepared s pc fc ec s3"
      by auto
    have c3: "m_shouldCancel s3" using prep assms by (simp add: prepared_def)
    obtain s' fx r where res: "extract_staged x s3 (fst (select_indices (m_FileList s) 0 ([], 0))) out = (s', fx, r)"
      by (cases "extract_staged x s3 (fst (select_indices (m_FileList s) 0 ([], 0))) out") auto
    have "m_shouldCancel s'"
    proof (cases rule: extract_staged_cases[OF res])
      case 1
      then show ?thesis using c3 by simp
    next
      case (2 tmp)
      then show ?thesis using c3 by simp
    next
      case (3 tmp reader fx1)
      then show ?thesis using c3 extractTo_kept[of s3 "abort_text x" reader "events x"]
        by (simp add: kept_def)
    next
      case (4 tmp reader s4 fx1 what)
      then show ?thesis using c3 extractTo_kept[of s3 "abort_text x" reader "events x"]
        by (simp add: kept_def)
    next
      case (5 tmp reader s4 fx1 h message)
      then show ?thesis using c3 extractTo_kept[of s3 "abort_text x" reader "events x"]
        by (simp add: kept_def)
    next
      case (6 tmp reader fx1 h)
      then show ?thesis using c3 extractTo_kept[of s3 "abort_text x" reader "events x"]
        by (simp add: kept_def)
    qed
    then show ?thesis using ex res by simp
  next
    assume "m_ArchivePtr s = None \<and> (pc \<or> fc) \<and>
          snd (extract_archive x s out pc fc ec) = ([], Null_Dereference) \<and>
          m_shouldCancel (fst (extract_archive x s out pc fc ec)) = m_shouldCancel s"
    then show ?thesis using assms by simp
  qed
qed

lemma extract_archive_result:
  assumes "extract_archive x s out pc fc ec = (s', fx, r)"
  obtains
    (invalid) "\<not> m_Valid s" "s' = s" "fx = []" "r = Returns False"
  | (null_early) "m_Valid s" "m_ArchivePtr s = None" "fx = []" "r = Null_Dereference"
  | (staged) s3 where "m_Valid s" "prepared s pc fc ec s3"
      "extract_staged x s3 (fst (select_indices (m_FileList s) 0 ([], 0))) out = (s', fx, r)"
proof (cases "m_Valid s")
  case False
  have f: "s' = s" "fx = []" "r = Returns False"
    using assms False by (simp_all add: extract_archive_invalid)
  show ?thesis by (rule invalid[OF False f])
next
  case True
  from extract_archive_cases[OF True, of x out pc fc ec]
  show ?thesis
  proof
    assume "\<exists>s3. extract_archive x s out pc fc ec =
                  extract_staged x s3 (fst (select_indices (m_FileList s) 0 ([], 0))) out \<and>
               prepared s pc fc ec s3"
    then obtain s3 where
      st: "extract_staged x s3 (fst (select_indices (m_FileList s) 0 ([], 0))) out = (s', fx, r)"
      and pr: "prepared s pc fc ec s3"
      using assms by auto
    show ?thesis by (rule staged[OF True pr st])
  next
    assume a: "m_ArchivePtr s = None \<and> (pc \<or> fc) \<and>
          snd (extract_archive x s out pc fc ec) = ([], Null_Dereference) \<and>
          m_shouldCancel (fst (extract_archive x s out pc fc ec)) = m_shouldCancel s"
    then have f: "fx = []" "r = Null_Dereference" using assms by simp_all
    from a have n: "m_ArchivePtr s = None" by simp
    show ?thesis by (rule null_early[OF True n f])
  qed
qed

lemma continues_refl: "continues h (h, None)"
  by (auto simp: continues_def intro: exI[of _ "[]"])

lemma continues_fail_mkdir:
  "continues h (h @ [(CreateDirectories d, Some m)], Some (a @ d @ b))"
  unfolding continues_def
  by (rule exI[of _ "[]"]) (auto simp: sublist_def)

lemma continues_fail_copy:
  "continues h (h @ [(CopyFile src dst, Some m)], Some (a @ dst @ b))"
  unfolding continues_def
  by (rule exI[of _ "[]"]) (auto simp: sublist_def)

lemma continues_trans:
  assumes "continues h (h1, None)" and "continues h1 res"
  shows "continues h res"
proof -
  from assms(1) obtain k where k: "list_all (\<lambda>e. snd e = None) k" "h1 = h @ k"
    by (auto simp: continues_def)
  from assms(2) obtain k' where k': "list_all (\<lambda>e. snd e = None) k'"
    "case snd res of None \<Rightarrow> fst res = h1 @ k'
     | Some text \<Rightarrow> \<exists>op m. fst res = h1 @ k' @ [(op, Some m)] \<and> sublist (op_target op) text"
    by (auto simp: continues_def)
  have "list_all (\<lambda>e. snd e = None) (k @ k')" using k k' by simp
  moreover have "case snd res of None \<Rightarrow> fst res = h @ (k @ k')
     | Some text \<Rightarrow> \<exists>op m. fst res = h @ (k @ k') @ [(op, Some m)] \<and> sublist (op_target op) text"
    using k' k by (auto split: option.splits)
  ultimately show ?thesis unfolding continues_def by blast
qed

lemma continues_ok_step: "continues h (h @ [(op, None)], None)"
  unfolding continues_def by (rule exI[of _ "[(op, None)]"]) simp

lemma relocate_directory_continues:
  "continues h (relocate_directory x out ps h)"
proof (induction ps arbitrary: h)
  case Nil
  show ?case by (simp add: continues_refl)
next
  case (Cons p ps)
  let ?t = "slash x out p"
  show ?case
  proof (cases "fs_result x h (CreateDirectories ?t)")
    case None
    then have E: "relocate_directory x out (p # ps) h =
               relocate_directory x out ps (h @ [(CreateDirectories ?t, None)])"
      by (simp add: Let_def)
    show ?thesis unfolding E
      by (rule continues_trans[OF continues_ok_step Cons.IH])
  next
    case (Some m)
    then have E: "relocate_directory x out (p # ps) h =
               (h @ [(CreateDirectories ?t, Some m)],
                Some (''Error creating output directory '' @ ?t @ '': '' @ m))"
      by (simp add: Let_def)
    show ?thesis unfolding E by (rule continues_fail_mkdir)
  qed
qed

lemma relocate_file_continues:
  "continues h (relocate_file x out tmp name ps h)"
proof (induction ps arbitrary: h)
  case Nil
  show ?case by (simp add: continues_refl)
next
  case (Cons p ps)
  let ?t = "if has_parent_path x p then slash x out (parent_path x p) else out"
  let ?h1 = "h @ [(CreateDirectories ?t, None)]"
  let ?src = "slash x tmp name"
  let ?dst = "slash x out p"
  show ?case
  proof (cases "fs_result x h (CreateDirectories ?t)")
    case (Some m)
    then have E: "relocate_file x out tmp name (p # ps) h =
               (h @ [(CreateDirectories ?t, Some m)],
                Some (''Error creating output directory '' @ ?t @ '': '' @ m))"
      by (simp add: Let_def)
    show ?thesis unfolding E by (rule continues_fail_mkdir)
  next
    case None
    note mk = this
    show ?thesis
    proof (cases "fs_result x ?h1 (CopyFile ?src ?dst)")
      case (Some m)
      then have E: "relocate_file x out tmp name (p # ps) h =
               (?h1 @ [(CopyFile ?src ?dst, Some m)],
                Some (''Error writing to output file '' @ ?dst @ '': '' @ m))"
        using mk by (simp add: Let_def)
      show ?thesis unfolding E
        by (rule continues_trans[OF continues_ok_step continues_fail_copy])
    next
      case None
      then have E: "relocate_file x out tmp name (p # ps) h =
                 relocate_file x out tmp name ps (?h1 @ [(CopyFile ?src ?dst, None)])"
        using mk by (simp add: Let_def)
      show ?thesis unfolding E
        by (rule continues_trans[OF continues_ok_step
              continues_trans[OF continues_ok_step Cons.IH]])
    qed
  qed
qed

lemma relocate_continues:
  "continues h (relocate x out tmp fl h)"
proof (induction fl arbitrary: h)
  case Nil
  show ?case by (simp add: continues_refl)
next
  case (Cons f fl)
  let ?one = "if isDirectory f then relocate_directory x out (getOutputFilePaths f) h
              else relocate_file x out tmp (getArchiveFilePath f) (getOutputFilePaths f) h"
  have one: "continues h ?one"
    by (simp add: relocate_directory_continues relocate_file_continues)
  obtain h1 res where r: "?one = (h1, res)" by (cases "?one") auto
  show ?case
  proof (cases res)
    case None
    have E: "relocate x out tmp (f # fl) h = relocate x out tmp fl h1"
      using r None by (simp del: relocate_directory.simps relocate_file.simps)
    have "continues h (h1, None)" using one r None by simp
    then show ?thesis unfolding E by (rule continues_trans[OF _ Cons.IH])
  next
    case (Some message)
    have E: "relocate x out tmp (f # fl) h = (h1, Some message)"
      using r Some by (simp del: relocate_directory.simps relocate_file.simps)
    show ?thesis unfolding E using one r Some by simp
  qed
qed

lemma relayed_others:
  "relayed e \<Longrightarrow> \<not> is_extractTo e \<and> \<not> failed_call e \<and> \<not> is_fs_call e"
  by (cases e) simp_all

lemma reportError_others:
  "e \<in> set (reportError s message) \<Longrightarrow>
     \<not> is_extractTo e \<and> \<not> failed_call e \<and> \<not> is_progress e \<and> \<not> is_fs_call e"
  by (auto simp: reportError_def split: if_splits)

lemma fs_effects_others:
  "e \<in> set (fs_effects h) \<Longrightarrow> \<not> is_extractTo e \<and> \<not> is_progress e"
  by (auto simp: fs_effects_def)

lemma fs_effects_append: "fs_effects (h @ k) = fs_effects h @ fs_effects k"
  by (simp add: fs_effects_def)

lemma fs_effects_ok:
  "list_all (\<lambda>e. snd e = None) k \<Longrightarrow> e \<in> set (fs_effects k) \<Longrightarrow> \<not> failed_call e"
  by (auto simp: fs_effects_def list_all_iff)

lemma failed_call_iff: "failed_call e \<longleftrightarrow> (\<exists>op m. e = FsCall op (Some m))"
  by (cases e rule: failed_call.cases) simp_all

lemma extractTo_relayed:
  "extractTo abort r es s = (s', fx, e) \<Longrightarrow> a \<in> set fx \<Longrightarrow> relayed a"
  using extractTo_effects[of a abort r es s] by simp

lemma extractTo_progress:
  "extractTo abort r es s = (s', fx, e) \<Longrightarrow> ProgressCall t c n \<in> set fx \<Longrightarrow>
     t = m_ProgressType s \<and> n = m_Total s"
  using extractTo_effects[of "ProgressCall t c n" abort r es s] by simp

lemma extractTo_kept':
  "extractTo abort r es s = (s', fx, e) \<Longrightarrow> kept s s'"
  using extractTo_kept[of s abort r es] by simp

text \<open>The only call of the engine's extractTo in the effects of the staged part.\<close>

lemma extract_staged_extractTo:
  assumes "extract_staged x s3 idx0 out = (s', fx, r)" and "EngineExtractTo d idx \<in> set fx"
  shows "idx = idx0"
proof -
  have no: "\<And>ys. (\<And>a. a \<in> set ys \<Longrightarrow> \<not> is_extractTo a) \<Longrightarrow> EngineExtractTo d idx \<notin> set ys"
    by (metis is_extractTo.simps(1))
  show ?thesis
  proof (cases rule: extract_staged_cases[OF assms(1)])
    case 1
    then show ?thesis using assms(2) no[of "reportError s3 ''Error creating a temporary directory for extraction''"]
        reportError_others by auto
  next
    case (2 tmp)
    then show ?thesis using assms(2) by simp
  next
    case (3 tmp reader fx1)
    have "EngineExtractTo d idx \<notin> set fx1"
      using no[of fx1] extractTo_relayed[OF 3(3)] relayed_others by blast
    then show ?thesis using assms(2) 3 by simp
  next
    case (4 tmp reader s4 fx1 what)
    have "EngineExtractTo d idx \<notin> set fx1"
      using no[of fx1] extractTo_relayed[OF 4(3)] relayed_others by blast
    moreover have "EngineExtractTo d idx \<notin> set (reportError s4 what)"
      using no[of "reportError s4 what"] reportError_others by blast
    ultimately show ?thesis using assms(2) 4 by simp
  next
    case (5 tmp reader s4 fx1 h message)
    have "EngineExtractTo d idx \<notin> set fx1"
      using no[of fx1] extractTo_relayed[OF 5(3)] relayed_others by blast
    moreover have "EngineExtractTo d idx \<notin> set (reportError s4 message)"
      using no[of "reportError s4 message"] reportError_others by blast
    moreover have "EngineExtractTo d idx \<notin> set (fs_effects h)"
      using no[of "fs_effects h"] fs_effects_others by blast
    ultimately show ?thesis using assms(2) 5 by simp
  next
    case (6 tmp reader fx1 h)
    have "EngineExtractTo d idx \<notin> set fx1"
      using no[of fx1] extractTo_relayed[OF 6(3)] relayed_others by blast
    moreover have "EngineExtractTo d idx \<notin> set (fs_effects h)"
      using no[of "fs_effects h"] fs_effects_others by blast
    ultimately show ?thesis using assms(2) 6 by simp
  qed
qed

lemma prepared_open:
  assumes "prepared s pc fc ec s3" and "m_ArchivePtr s \<noteq> None"
  shows "m_ArchivePtr s3 \<noteq> None"
  using assms by (auto simp: prepared_def split: option.splits)

lemma no_failed_relayed:
  "extractTo abort r es s = (s', fx, e) \<Longrightarrow> \<not> list_ex failed_call fx"
  using extractTo_relayed relayed_others by (fastforce simp: list_ex_iff)

lemma no_failed_report: "\<not> list_ex failed_call (reportError s message)"
  using reportError_others by (fastforce simp: list_ex_iff)

lemma no_failed_ok:
  "list_all (\<lambda>e. snd e = None) k \<Longrightarrow> \<not> list_ex failed_call (fs_effects k)"
  using fs_effects_ok by (fastforce simp: list_ex_iff)

lemma failed_in: "FsCall op (Some m) \<in> set ys \<Longrightarrow> list_ex failed_call ys"
  by (force simp: list_ex_iff)

lemma open_archive_keeps:
  "m_shouldCancel (fst (open_archive w s a pw)) = m_shouldCancel s \<and>
   m_Password (fst (open_archive w s a pw)) = m_Password s"
  by (simp add: open_archive_def Let_def resetFileList_other split: sum.splits option.splits)

lemma extract_archive_Total:
  assumes "extract_archive x s out pc fc ec = (s', fx, r)"
  shows "m_Total s' = m_Total s \<and>
         (\<forall>t c n. ProgressCall t c n \<in> set fx \<longrightarrow> n = m_Total s \<and> t = m_ProgressType s)"
proof (cases rule: extract_archive_result[OF assms(1)])
  case 1
  then show ?thesis by simp
next
  case 2
  have "m_Total s' = m_Total s"
    using assms 2
    by (auto simp: extract_archive_def Let_def setFileCallback_def setProgressCallback_def
        extract_staged_def split: if_splits prod.splits option.splits)
  then show ?thesis using 2 by simp
next
  case (3 s3)
  have p: "m_Total s3 = m_Total s" "m_ProgressType s3 = m_ProgressType s"
    using 3(2) by (simp_all add: prepared_def)
  have np: "\<And>ys t c n. (\<And>a. a \<in> set ys \<Longrightarrow> \<not> is_progress a) \<Longrightarrow> ProgressCall t c n \<notin> set ys"
    by (metis is_progress.simps(1))
  show ?thesis
  proof (cases rule: extract_staged_cases[OF 3(3)])
    case 1
    then show ?thesis using p np[of "reportError s3 ''Error creating a temporary directory for extraction''"]
        reportError_others by auto
  next
    case (2 tmp)
    then show ?thesis using p by simp
  next
    case (3 tmp reader fx1)
    then show ?thesis using p extractTo_kept'[OF 3(3)] extractTo_progress[OF 3(3)]
      by (auto simp: kept_def)
  next
    case (4 tmp reader s4 fx1 what)
    have "\<And>t c n. ProgressCall t c n \<notin> set (reportError s4 what)"
      using np[of "reportError s4 what"] reportError_others by blast
    then show ?thesis using 4 p extractTo_kept'[OF 4(3)] extractTo_progress[OF 4(3)]
      by (auto simp: kept_def)
  next
    case (5 tmp reader s4 fx1 h message)
    have "\<And>t c n. ProgressCall t c n \<notin> set (reportError s4 message)"
      using np[of "reportError s4 message"] reportError_others by blast
    moreover have "\<And>t c n. ProgressCall t c n \<notin> set (fs_effects h)"
      using np[of "fs_effects h"] fs_effects_others by blast
    ultimately show ?thesis using 5 p extractTo_kept'[OF 5(3)] extractTo_progress[OF 5(3)]
      by (auto simp: kept_def)
  next
    case (6 tmp reader fx1 h)
    have "\<And>t c n. ProgressCall t c n \<notin> set (fs_effects h)"
      using np[of "fs_effects h"] fs_effects_others by blast
    then show ?thesis using 6 p extractTo_kept'[OF 6(3)] extractTo_progress[OF 6(3)]
      by (auto simp: kept_def)
  qed
qed

lemma cancelled_call_state:
  assumes "extract_archive x s out pc fc ec = (s1, fx, Returns False)" and "m_Valid s"
    and "m_LastError s1 = ERROR_EXTRACT_CANCELLED"
  shows "m_shouldCancel s1 \<and> m_Valid s1 \<and> m_ArchivePtr s1 \<noteq> None"
proof (cases rule: extract_archive_result[OF assms(1)])
  case 1
  then show ?thesis using assms(2) by simp
next
  case 2
  then show ?thesis by simp
next
  case (3 s3)
  have v3: "m_Valid s3" using 3(1,2) by (simp add: prepared_def)
  show ?thesis
  proof (cases rule: extract_staged_cases[OF 3(3)])
    case 1
    then show ?thesis using assms(3) by simp
  next
    case (4 tmp reader s4 fx1 what)
    then show ?thesis using assms(3) v3 extractTo_kept'[OF 4(3)]
      by (auto simp: kept_def split: if_splits)
  next
    case (5 tmp reader s4 fx1 h message)
    then show ?thesis using assms(3) by simp
  qed simp_all
qed

lemma triple: "e = (fst e, fst (snd e), snd (snd e))"
  by simp

lemma resize_fields:
  "m_Valid (resize g s) = m_Valid s" "m_LastError (resize g s) = m_LastError s"
  "m_shouldCancel (resize g s) = m_shouldCancel s" "m_ArchivePtr (resize g s) = m_ArchivePtr s"
  "m_ProgressType (resize g s) = m_ProgressType s" "m_Total (resize g s) = m_Total s"
  "m_FileChangeType (resize g s) = m_FileChangeType s"
  "m_ProgressCallback (resize g s) = m_ProgressCallback s"
  "m_FileChangeCallback (resize g s) = m_FileChangeCallback s"
  "m_ErrorCallback (resize g s) = m_ErrorCallback s"
  "m_PasswordCallback (resize g s) = m_PasswordCallback s"
  "m_Password (resize g s) = m_Password s"
  "m_FileList (resize g s) = map (\<lambda>f. f\<lparr>m_Size := g f\<rparr>) (m_FileList s)"
  by (simp_all add: resize_def)

lemma resize_password:
  "passwordCallbackWrapper (resize g s) = apfst (resize g) (passwordCallbackWrapper s)"
  by (simp add: passwordCallbackWrapper_def resize_def split: bool.splits option.splits)

lemma resize_progress: "progressCallbackWrapper (resize g s) c = progressCallbackWrapper s c"
  by (simp add: progressCallbackWrapper_def resize_fields)

lemma resize_fileChange: "fileChangeCallbackWrapper (resize g s) p = fileChangeCallbackWrapper s p"
  by (simp add: fileChangeCallbackWrapper_def resize_fields)

lemma resize_cancel: "cancel (resize g s) = resize g (cancel s)"
  by (simp add: cancel_def resize_def)

lemma apfst_after: "after_effects fx (apfst f res) = apfst f (after_effects fx res)"
  by (cases res) (simp add: after_effects_def)

lemma resize_extractTo:
  "extractTo a r es (resize g s) = apfst (resize g) (extractTo a r es s)"
proof (induction es arbitrary: s)
  case Nil
  show ?case by simp
next
  case (Cons ev es)
  show ?case
  proof (cases ev)
    case (Tick c)
    then show ?thesis
      by (simp add: resize_progress Cons.IH apfst_after split: option.splits)
  next
    case (FileStart p)
    then show ?thesis
      by (simp add: resize_fileChange Cons.IH apfst_after split: option.splits)
  next
    case PasswordQuery
    obtain s1 fx1 pw where w: "passwordCallbackWrapper s = (s1, fx1, pw)"
      by (cases "passwordCallbackWrapper s") auto
    show ?thesis using PasswordQuery
      by (simp add: resize_password w Cons.IH apfst_after)
  next
    case CancelCall
    then show ?thesis by (simp add: resize_cancel Cons.IH)
  next
    case (EngineFault w)
    then show ?thesis by simp
  qed
qed

lemma resize_relocate:
  "relocate x out tmp (map (\<lambda>f. f\<lparr>m_Size := g f\<rparr>) fl) h = relocate x out tmp fl h"
  by (induction fl arbitrary: h)
    (simp_all add: isDirectory_def getOutputFilePaths_def getArchiveFilePath_def
      del: relocate_directory.simps relocate_file.simps)

lemma resize_select:
  "fst (select_indices (map (\<lambda>f. f\<lparr>m_Size := g f\<rparr>) fl) i (idx, t)) =
   fst (select_indices fl i (idx, t'))"
proof -
  have "filter (\<lambda>j. \<not> isEmpty (map (\<lambda>f. f\<lparr>m_Size := g f\<rparr>) fl ! j)) [0..<length fl] =
        filter (\<lambda>j. \<not> isEmpty (fl ! j)) [0..<length fl]"
    by (rule filter_cong) (auto simp: isEmpty_def)
  then show ?thesis by (simp add: select_indices_fst)
qed

lemma resize_staged:
  "extract_staged x (resize g s) idx out = apfst (resize g) (extract_staged x s idx out)"
proof (cases "temp_dir x")
  case None
  then show ?thesis
    by (simp add: extract_staged_def reportError_def resize_def)
next
  case (Some tmp)
  note tmp = this
  show ?thesis
  proof (cases "m_ArchivePtr s")
    case None
    then show ?thesis using tmp by (simp add: extract_staged_def resize_fields)
  next
    case (Some reader)
    obtain s4 fx1 e where run: "extractTo (abort_text x) reader (events x) s = (s4, fx1, e)"
      by (cases "extractTo (abort_text x) reader (events x) s") auto
    obtain h res where rel: "relocate x out tmp (m_FileList s4) [] = (h, res)"
      by (cases "relocate x out tmp (m_FileList s4) []") auto
    have upd: "\<And>e. (resize g s4)\<lparr>m_LastError := e\<rparr> = resize g (s4\<lparr>m_LastError := e\<rparr>)"
      by (simp add: resize_def)
    show ?thesis
      using tmp Some run rel
      by (cases e; cases res)
        (simp_all add: extract_staged_def resize_fields resize_extractTo after_effects_def
          resize_relocate reportError_def upd)
  qed
qed


lemma extract_archive_opened:
  assumes "m_Valid s" and "m_ArchivePtr s = Some r"
  shows "extract_archive x s out pc fc ec =
           extract_staged x
             (s\<lparr>m_ProgressCallback := pc, m_FileChangeCallback := fc, m_ErrorCallback := ec,
                m_FileChangeType := (if fc then EXTRACTION_START else m_FileChangeType s),
                m_ArchivePtr := Some (r\<lparr>fileCallback_set := fc \<or> fileCallback_set r,
                                        progressCallback_set := pc \<or> progressCallback_set r\<rparr>)\<rparr>)
             (fst (select_indices (m_FileList s) 0 ([], 0))) out"
  using assms
  by (cases pc; cases fc)
    (simp_all add: extract_archive_def setFileCallback_def setProgressCallback_def Let_def
      ptr_update_same split: prod.splits)

lemma extract_archive_unopened:
  assumes "m_Valid s" and "m_ArchivePtr s = None"
  shows "extract_archive x s out pc fc ec =
           (if pc \<or> fc
            then (s\<lparr>m_ProgressCallback := pc, m_FileChangeCallback := fc, m_ErrorCallback := ec\<rparr>,
                  [], Null_Dereference)
            else extract_staged x
                   (s\<lparr>m_ProgressCallback := pc, m_FileChangeCallback := fc,
                      m_ErrorCallback := ec\<rparr>)
                   (fst (select_indices (m_FileList s) 0 ([], 0))) out)"
  using assms
  by (cases pc; cases fc)
    (simp_all add: extract_archive_def setFileCallback_def setProgressCallback_def Let_def
      split: prod.splits)

lemma resize_extract_archive:
  "extract_archive x (resize g s) out pc fc ec =
     apfst (resize g) (extract_archive x s out pc fc ec)"
proof (cases "m_Valid s")
  case False
  then show ?thesis by (simp add: extract_archive_invalid resize_fields)
next
  case True
  then have v: "m_Valid (resize g s)" by (simp add: resize_fields)
  have sel: "fst (select_indices (m_FileList (resize g s)) 0 ([], 0)) =
             fst (select_indices (m_FileList s) 0 ([], 0))"
    by (simp add: resize_fields resize_select[of g _ 0 "[]" 0 0])
  show ?thesis
  proof (cases "m_ArchivePtr s")
    case None
    then have n: "m_ArchivePtr (resize g s) = None" by (simp add: resize_fields)
    have st: "(resize g s)\<lparr>m_ProgressCallback := pc, m_FileChangeCallback := fc,
                m_ErrorCallback := ec\<rparr> =
              resize g (s\<lparr>m_ProgressCallback := pc, m_FileChangeCallback := fc,
                m_ErrorCallback := ec\<rparr>)"
      by (simp add: resize_def)
    show ?thesis
      unfolding extract_archive_unopened[OF v n] extract_archive_unopened[OF True None] sel st
      by (simp add: resize_staged)
  next
    case (Some r)
    then have p: "m_ArchivePtr (resize g s) = Some r" by (simp add: resize_fields)
    have st: "(resize g s)\<lparr>m_ProgressCallback := pc, m_FileChangeCallback := fc,
                m_ErrorCallback := ec,
                m_FileChangeType :=
                  (if fc then EXTRACTION_START else m_FileChangeType (resize g s)),
                m_ArchivePtr := Some (r\<lparr>fileCallback_set := fc \<or> fileCallback_set r,
                                        progressCallback_set := pc \<or> progressCallback_set r\<rparr>)\<rparr> =
              resize g (s\<lparr>m_ProgressCallback := pc, m_FileChangeCallback := fc,
                m_ErrorCallback := ec,
                m_FileChangeType := (if fc then EXTRACTION_START else m_FileChangeType s),
                m_ArchivePtr := Some (r\<lparr>fileCallback_set := fc \<or> fileCallback_set r,
                                        progressCallback_set := pc \<or> progressCallback_set r\<rparr>)\<rparr>)"
      by (simp add: resize_def)
    show ?thesis
      unfolding extract_archive_opened[OF v p] extract_archive_opened[OF True Some] sel st
      by (simp add: resize_staged)
  qed
qed

text \<open>
  What the password relay does keep: once a non-empty password is cached the provider
  is not asked again, so a provider whose first answer is not empty is asked at most
  once during a run of the engine.
\<close>

lemma password_cached_not_asked:
  "m_Password s \<noteq> [] \<Longrightarrow> \<not> list_ex is_password_call (fst (snd (extractTo a r es s)))"
proof (induction es arbitrary: s)
  case Nil
  show ?case by simp
next
  case (Cons ev es)
  show ?case
  proof (cases ev)
    case (Tick c)
    then show ?thesis using Cons.IH[OF Cons.prems]
      by (auto simp: effects_after_effects progressCallbackWrapper_def split: if_splits)
  next
    case (FileStart p)
    then show ?thesis using Cons.IH[OF Cons.prems]
      by (auto simp: effects_after_effects fileChangeCallbackWrapper_def split: if_splits)
  next
    case PasswordQuery
    have "passwordCallbackWrapper s = (s, [], m_Password s)"
      using Cons.prems by (simp add: passwordCallbackWrapper_def split: option.splits)
    then show ?thesis using PasswordQuery Cons.IH[OF Cons.prems]
      by (simp add: effects_after_effects)
  next
    case CancelCall
    have "m_Password (cancel s) \<noteq> []" using Cons.prems by (simp add: cancel_def)
    from Cons.IH[OF this] show ?thesis using CancelCall by simp
  next
    case (EngineFault w)
    then show ?thesis by simp
  qed
qed

lemma password_asked_at_most_once:
  "m_PasswordCallback s = Some provider \<Longrightarrow> provider 0 \<noteq> [] \<Longrightarrow>
     length (filter is_password_call (fst (snd (extractTo a r es s)))) \<le> 1"
proof (induction es arbitrary: s)
  case Nil
  show ?case by simp
next
  case (Cons ev es)
  show ?case
  proof (cases ev)
    case (Tick c)
    then show ?thesis using Cons.IH[OF Cons.prems]
      by (auto simp: effects_after_effects progressCallbackWrapper_def split: if_splits)
  next
    case (FileStart p)
    then show ?thesis using Cons.IH[OF Cons.prems]
      by (auto simp: effects_after_effects fileChangeCallbackWrapper_def split: if_splits)
  next
    case PasswordQuery
    show ?thesis
    proof (cases "m_Password s = []")
      case True
      let ?s1 = "s\<lparr>m_Password := provider 0,
                    m_PasswordCallback := Some (\<lambda>n. provider (Suc n))\<rparr>"
      have w: "passwordCallbackWrapper s = (?s1, [PasswordCall (provider 0)], provider 0)"
        using True Cons.prems by (simp add: passwordCallbackWrapper_def)
      have "m_Password ?s1 \<noteq> []" using Cons.prems by simp
      from password_cached_not_asked[OF this, of a r es]
      have "filter is_password_call (fst (snd (extractTo a r es ?s1))) = []"
        by (simp add: list_ex_iff filter_empty_conv)
      then show ?thesis using PasswordQuery w by (simp add: effects_after_effects)
    next
      case False
      from password_cached_not_asked[OF False, of a r "ev # es"]
      have "filter is_password_call (fst (snd (extractTo a r (ev # es) s))) = []"
        by (simp add: list_ex_iff filter_empty_conv)
      then show ?thesis by simp
    qed
  next
    case CancelCall
    have "m_PasswordCallback (cancel s) = Some provider" using Cons.prems by (simp add: cancel_def)
    from Cons.IH[OF this Cons.prems(2)] show ?thesis using CancelCall by simp
  next
    case (EngineFault w)
    then show ?thesis by simp
  qed
qed

section \<open>The claims\<close>

text \<open>
  Claim C1, as amended. The claim fails for the cached password: \<open>close()\<close> releases
  the password provider (\<open>m_PasswordCallback\<close>) and never assigns \<open>m_Password\<close>. What
  holds: after \<open>close()\<close>, in either file, the session holds no reader, \<open>getFileList()\<close>
  is empty, the password provider is released and the cached password is the one from
  before; the \<open>close()\<close> of \<^verbatim>\<open>part_004\<close> resets the cancellation flag; a second
  \<open>close()\<close> changes nothing.
\<close>

theorem close_releases:
  "m_ArchivePtr (close v s) = None \<and> getFileList (close v s) = [] \<and>
   m_PasswordCallback (close v s) = None \<and> m_Password (close v s) = m_Password s \<and>
   m_shouldCancel (close Part_004 s) = False \<and>
   close v (close v s) = close v s"
  by (simp add: close_def getFileList_def clearFileList_def Let_def)

theorem close_releases_witness:
  "m_ArchivePtr (close Part_004 session_cancelled) = None \<and>
   getFileList (close Part_004 session_cancelled) = [] \<and>
   m_shouldCancel session_cancelled \<and>
   m_shouldCancel (close Part_004 session_cancelled) = False \<and>
   close Part_004 (close Part_004 session_cancelled) = close Part_004 session_cancelled"
proof -
  have c: "m_shouldCancel session_cancelled" by code_simp
  show ?thesis using close_releases[of Part_004 session_cancelled] c by blast
qed

theorem close_keeps_password_counterexample:
  "m_Password session_with_password = ''secret'' \<and>
   m_Password (close Part_003 session_with_password) = ''secret'' \<and>
   m_Password (close Part_004 session_with_password) = ''secret'' \<and>
   m_Password (close Part_004 session_with_password) \<noteq> [] \<and>
   m_shouldCancel (close Part_003 session_cancelled)"
  by code_simp

text \<open>
  Claim C2, as amended. The claim fails for \<open>extract\<close>: no path of \<open>extract\<close> assigns
  \<open>ERROR_NONE\<close>. What holds: an \<open>open\<close> that returns true leaves the last error
  \<open>ERROR_NONE\<close>; an \<open>extract\<close> that returns true leaves the last error as it was before
  the call.
\<close>

theorem last_error_after_success:
  "(open_archive w s archiveName passwordCallback = (s1, fx1, True) \<longrightarrow>
      getLastError s1 = ERROR_NONE) \<and>
   (extract_archive x s outputDirectory progressCallback fileChangeCallback errorCallback =
      (s2, fx2, Returns True) \<longrightarrow> getLastError s2 = getLastError s)"
proof (intro conjI impI)
  assume "open_archive w s archiveName passwordCallback = (s1, fx1, True)"
  from open_archive_True[OF this] show "getLastError s1 = ERROR_NONE"
    by (auto simp: getLastError_def resetFileList_other)
next
  assume a: "extract_archive x s outputDirectory progressCallback fileChangeCallback
               errorCallback = (s2, fx2, Returns True)"
  show "getLastError s2 = getLastError s"
  proof (cases rule: extract_archive_result[OF a])
    case 1
    then show ?thesis by simp
  next
    case 2
    then show ?thesis by simp
  next
    case (3 s3)
    have e3: "m_LastError s3 = m_LastError s" using 3(2) by (simp add: prepared_def)
    show ?thesis
    proof (cases rule: extract_staged_cases[OF 3(3)])
      case (6 tmp reader fx1 h)
      then show ?thesis using extractTo_kept'[OF 6(3)] e3
        by (simp add: kept_def getLastError_def)
    qed simp_all
  qed
qed

theorem last_error_after_success_witness:
  "open_archive demo_world (new_ArchiveImpl demo_world) ''archive.zip'' None =
     (session_opened None, [], True) \<and>
   getLastError (session_opened None) = ERROR_NONE \<and>
   snd (snd (extract_archive demo_run (session_opened None) ''/dest'' False False False)) =
     Returns True \<and>
   getLastError (fst (extract_archive demo_run (session_opened None) ''/dest''
                        False False False)) = getLastError (session_opened None)"
proof -
  let ?e = "extract_archive demo_run (session_opened None) ''/dest'' False False False"
  have r: "snd (snd ?e) = Returns True" by code_simp
  have h: "?e = (fst ?e, fst (snd ?e), Returns True)"
    unfolding r[symmetric] by simp
  have a: "getLastError (session_opened None) = ERROR_NONE"
    using last_error_after_success[where w = demo_world and s = "new_ArchiveImpl demo_world"
        and archiveName = "''archive.zip''" and passwordCallback = None
        and ?s1.0 = "session_opened None" and ?fx1.0 = "[]"] demo_open
    by blast
  have b: "getLastError (fst ?e) = getLastError (session_opened None)"
    using last_error_after_success[where x = demo_run and s = "session_opened None"
        and outputDirectory = "''/dest''" and progressCallback = False
        and fileChangeCallback = False and errorCallback = False
        and ?s2.0 = "fst ?e" and ?fx2.0 = "fst (snd ?e)"] h
    by blast
  show ?thesis by (intro conjI) (rule demo_open, rule a, rule r, rule b)
qed

theorem extract_success_keeps_error_counterexample:
  "getLastError session_failed = ERROR_LIBRARY_ERROR \<and>
   snd (snd (extract_archive demo_run session_failed ''/dest'' False False False)) =
     Returns True \<and>
   getLastError (fst (extract_archive demo_run session_failed ''/dest'' False False False)) \<noteq>
     ERROR_NONE"
  by code_simp

text \<open>
  Claim C3. The comment in \<open>passwordCallbackWrapper\<close> says "only ask for password once",
  and the wrapper takes an empty \<open>m_Password\<close> for "not asked yet". With a provider that
  answers with the empty string, the second query of the engine in one \<open>extract\<close> asks
  the provider again, and gets another password than the first query got.
\<close>

theorem password_provider_asked_again:
  "filter is_password_call
     (fst (snd (extract_archive (run_with [PasswordQuery, PasswordQuery])
                  (session_selected (Some dismissed_once)) ''/dest'' False False False))) =
     [PasswordCall [], PasswordCall ''secret''] \<and>
   snd (snd (passwordCallbackWrapper (session_selected (Some dismissed_once)))) = [] \<and>
   snd (snd (passwordCallbackWrapper
               (fst (passwordCallbackWrapper (session_selected (Some dismissed_once)))))) =
     ''secret''"
  by code_simp

text \<open>
  Claim C4. A session is valid and has an open archive, the caller gives a progress
  callback, and the temporary directory can be made. If the cancellation flag is set
  before the engine's first progress tick (it was set when \<open>extract\<close> began, or the other
  thread calls \<open>cancel()\<close> among the events before that tick), and the engine does not
  fail before that tick, then the relay hands the tick to the caller's progress callback
  and returns false (the last conjunct), no further tick is handed over, the engine's
  abort is caught, the error callback (if any) gets its text, and \<open>extract\<close> returns
  false with \<open>ERROR_EXTRACT_CANCELLED\<close>. The last hypothesis excludes the call of an empty
  \<open>std::function\<close>: a reader that still holds the file-change relay of an earlier
  \<open>extract\<close> needs a file-change callback now.
\<close>

theorem cancel_before_first_tick:
  assumes "m_Valid s" and "m_ArchivePtr s \<noteq> None"
    and "temp_dir x = Some tmp"
    and "events x = pre @ Tick c # post" and "list_all quiet pre"
    and "m_shouldCancel s \<or> CancelCall \<in> set pre"
    and "file_relay_installed s \<longrightarrow> fileChangeCallback"
  shows "\<exists>s' fx0.
           extract_archive x s outputDirectory True fileChangeCallback errorCallback =
             (s', fx0 @ [ProgressCall (m_ProgressType s) c (m_Total s), TempDirRemove tmp] @
                    (if errorCallback then [ErrorCall (abort_text x)] else []),
              Returns False) \<and>
           \<not> list_ex is_progress fx0 \<and>
           getLastError s' = ERROR_EXTRACT_CANCELLED \<and>
           progressCallbackWrapper s' c =
             Some ([ProgressCall (m_ProgressType s) c (m_Total s)], False)"
  using extract_archive_halts[OF assms, of outputDirectory errorCallback]
  by (auto simp: getLastError_def)

theorem cancel_before_first_tick_witness:
  "m_Valid (session_selected None) \<and> m_ArchivePtr (session_selected None) \<noteq> None \<and>
   events (run_with [FileStart ''a.txt'', CancelCall, Tick 5, Tick 9]) =
     [FileStart ''a.txt'', CancelCall] @ Tick 5 # [Tick 9] \<and>
   snd (snd (extract_archive (run_with [FileStart ''a.txt'', CancelCall, Tick 5, Tick 9])
               (session_selected None) ''/dest'' True True True)) = Returns False \<and>
   getLastError (fst (extract_archive (run_with [FileStart ''a.txt'', CancelCall, Tick 5, Tick 9])
                        (session_selected None) ''/dest'' True True True)) =
     ERROR_EXTRACT_CANCELLED \<and>
   fst (snd (extract_archive (run_with [FileStart ''a.txt'', CancelCall, Tick 5, Tick 9])
               (session_selected None) ''/dest'' True True True)) =
     [TempDirCreate (Some ''/tmp/qt''), EngineExtractTo ''/tmp/qt'' [0, 1],
      FileChangeCall EXTRACTION_START ''a.txt'', ProgressCall EXTRACTION 5 30,
      TempDirRemove ''/tmp/qt'', ErrorCall ''aborted'']"
proof -
  let ?S = "session_selected None"
  let ?x = "run_with [FileStart ''a.txt'', CancelCall, Tick 5, Tick 9]"
  let ?e = "extract_archive ?x ?S ''/dest'' True True True"
  have v: "m_Valid ?S" by code_simp
  have p: "m_ArchivePtr ?S \<noteq> None" by code_simp
  have t: "temp_dir ?x = Some ''/tmp/qt''" by code_simp
  have ev: "events ?x = [FileStart ''a.txt'', CancelCall] @ Tick 5 # [Tick 9]" by code_simp
  have q: "list_all quiet [FileStart ''a.txt'', CancelCall]" by simp
  have c: "m_shouldCancel ?S \<or> CancelCall \<in> set [FileStart ''a.txt'', CancelCall]" by simp
  have r: "file_relay_installed ?S \<longrightarrow> True" by simp
  from cancel_before_first_tick[OF v p t ev q c r, of "''/dest''" True]
  obtain s' fx0 where e: "?e = (s', fx0 @ [ProgressCall (m_ProgressType ?S) 5 (m_Total ?S),
                                  TempDirRemove ''/tmp/qt''] @
                                 (if True then [ErrorCall (abort_text ?x)] else []),
                          Returns False)"
    and l: "getLastError s' = ERROR_EXTRACT_CANCELLED"
    by blast
  have a: "snd (snd ?e) = Returns False" unfolding e by simp
  have b: "getLastError (fst ?e) = ERROR_EXTRACT_CANCELLED" unfolding e using l by simp
  have fx: "fst (snd ?e) =
     [TempDirCreate (Some ''/tmp/qt''), EngineExtractTo ''/tmp/qt'' [0, 1],
      FileChangeCall EXTRACTION_START ''a.txt'', ProgressCall EXTRACTION 5 30,
      TempDirRemove ''/tmp/qt'', ErrorCall ''aborted'']"
    by code_simp
  show ?thesis
    by (intro conjI) (rule v, rule p, rule ev, rule a, rule b, rule fx)
qed

text \<open>
  Claim C5. On a valid session with an open archive: when the temporary directory
  cannot be created, \<open>extract\<close> returns false with \<open>ERROR_OUT_OF_MEMORY\<close>, having called
  the error callback (if there is one) and not the engine; when a \<open>create_directories\<close>
  or a \<open>copy_file\<close> of the copy phase sets an error, \<open>extract\<close> returns false with
  \<open>ERROR_LIBRARY_ERROR\<close>, the text given to the error callback holds the path of that
  call, and that call is the last file-system call: before it come only calls that set
  no error (their results stay as they are), after it only the error callback and the
  removal of the temporary directory.
\<close>

theorem extract_local_failures:
  assumes "extract_archive x s outputDirectory progressCallback fileChangeCallback errorCallback =
             (s', fx, r)"
    and "m_Valid s" and "m_ArchivePtr s \<noteq> None"
  shows "(temp_dir x = None \<longrightarrow>
            r = Returns False \<and> getLastError s' = ERROR_OUT_OF_MEMORY \<and>
            fx = TempDirCreate None #
                   (if errorCallback
                    then [ErrorCall ''Error creating a temporary directory for extraction'']
                    else [])) \<and>
         (\<forall>op m. FsCall op (Some m) \<in> set fx \<longrightarrow>
            r = Returns False \<and> getLastError s' = ERROR_LIBRARY_ERROR \<and>
            (\<exists>before message tmp.
               temp_dir x = Some tmp \<and>
               fx = before @ [FsCall op (Some m)] @
                      (if errorCallback then [ErrorCall message] else []) @ [TempDirRemove tmp] \<and>
               sublist (op_target op) message \<and> \<not> list_ex failed_call before))"
proof (cases rule: extract_archive_result[OF assms(1)])
  case 1
  then show ?thesis using assms(2) by simp
next
  case 2
  then show ?thesis using assms(3) by simp
next
  case (3 s3)
  have ec3: "m_ErrorCallback s3 = errorCallback" using 3(2) by (simp add: prepared_def)
  show ?thesis
  proof (cases rule: extract_staged_cases[OF 3(3)])
    case 1
    then show ?thesis using ec3 by (auto simp: reportError_def getLastError_def)
  next
    case (2 tmp)
    then show ?thesis using prepared_open[OF 3(2) assms(3)] by simp
  next
    case (3 tmp reader fx1)
    have "\<not> list_ex failed_call fx" using no_failed_relayed[OF 3(3)] 3(4) by simp
    then have "\<forall>op m. FsCall op (Some m) \<notin> set fx" using failed_in by blast
    then show ?thesis using 3(1) by simp
  next
    case (4 tmp reader s4 fx1 what)
    have "\<not> list_ex failed_call fx"
      using no_failed_relayed[OF 4(3)] no_failed_report[of s4 what] 4(5) by simp
    then have "\<forall>op m. FsCall op (Some m) \<notin> set fx" using failed_in by blast
    then show ?thesis using 4(1) by simp
  next
    case (5 tmp reader s4 fx1 h message)
    have ec4: "m_ErrorCallback s4 = errorCallback"
      using extractTo_kept'[OF 5(3)] ec3 by (simp add: kept_def)
    from relocate_continues[of "[]" x outputDirectory tmp "m_FileList s4"] 5(4)
    obtain k op0 m0 where k: "list_all (\<lambda>e. snd e = None) k" "h = k @ [(op0, Some m0)]"
      "sublist (op_target op0) message"
      by (auto simp: continues_def)
    let ?before = "[TempDirCreate (Some tmp),
                    EngineExtractTo tmp (fst (select_indices (m_FileList s) 0 ([], 0)))] @
                   fx1 @ fs_effects k"
    have nb: "\<not> list_ex failed_call ?before"
      using no_failed_relayed[OF 5(3)] no_failed_ok[OF k(1)] by simp
    have fx: "fx = ?before @ [FsCall op0 (Some m0)] @
                (if errorCallback then [ErrorCall message] else []) @ [TempDirRemove tmp]"
      using 5(6) k(2) ec4 by (simp add: fs_effects_def reportError_def)
    have only: "op = op0 \<and> m = m0" if "FsCall op (Some m) \<in> set fx" for op m
    proof -
      have "FsCall op (Some m) \<notin> set ?before" using nb failed_in by blast
      then show ?thesis using that fx by (auto split: if_splits)
    qed
    have res: "r = Returns False \<and> getLastError s' = ERROR_LIBRARY_ERROR"
      using 5 by (simp add: getLastError_def)
    have "\<exists>before message tmp.
               temp_dir x = Some tmp \<and>
               fx = before @ [FsCall op (Some m)] @
                      (if errorCallback then [ErrorCall message] else []) @ [TempDirRemove tmp] \<and>
               sublist (op_target op) message \<and> \<not> list_ex failed_call before"
      if "FsCall op (Some m) \<in> set fx" for op m
    proof -
      have "op = op0" "m = m0" using only[OF that] by simp_all
      then show ?thesis using 5(1) fx nb k(3) by blast
    qed
    then show ?thesis using res 5(1) by simp
  next
    case (6 tmp reader fx1 h)
    from relocate_continues[of "[]" x outputDirectory tmp "m_FileList s'"] 6(4)
    have "list_all (\<lambda>e. snd e = None) h" by (auto simp: continues_def)
    then have "\<not> list_ex failed_call fx"
      using no_failed_relayed[OF 6(3)] no_failed_ok 6(5) by simp
    then have "\<forall>op m. FsCall op (Some m) \<notin> set fx" using failed_in by blast
    then show ?thesis using 6(1) by simp
  qed
qed

theorem extract_local_failures_witness:
  "m_Valid (session_selected None) \<and> m_ArchivePtr (session_selected None) \<noteq> None \<and>
   fst (snd (extract_archive run_denied (session_selected None) ''/dest'' False False True)) =
     [TempDirCreate (Some ''/tmp/qt''), EngineExtractTo ''/tmp/qt'' [0, 1],
      FsCall (CreateDirectories ''/dest/out'') None,
      FsCall (CopyFile ''/tmp/qt/a.txt'' ''/dest/out/a.txt'') None,
      FsCall (CreateDirectories ''/dest/out/dir'') (Some ''denied''),
      ErrorCall ''Error creating output directory /dest/out/dir: denied'',
      TempDirRemove ''/tmp/qt''] \<and>
   snd (snd (extract_archive run_denied (session_selected None) ''/dest'' False False True)) =
     Returns False \<and>
   getLastError (fst (extract_archive run_denied (session_selected None) ''/dest''
                        False False True)) = ERROR_LIBRARY_ERROR \<and>
   temp_dir run_no_temp = None \<and>
   snd (snd (extract_archive run_no_temp (session_selected None) ''/dest'' False False True)) =
     Returns False \<and>
   getLastError (fst (extract_archive run_no_temp (session_selected None) ''/dest''
                        False False True)) = ERROR_OUT_OF_MEMORY"
proof -
  let ?S = "session_selected None"
  let ?e = "extract_archive run_denied ?S ''/dest'' False False True"
  let ?n = "extract_archive run_no_temp ?S ''/dest'' False False True"
  have v: "m_Valid ?S" by code_simp
  have p: "m_ArchivePtr ?S \<noteq> None" by code_simp
  have fx: "fst (snd ?e) =
     [TempDirCreate (Some ''/tmp/qt''), EngineExtractTo ''/tmp/qt'' [0, 1],
      FsCall (CreateDirectories ''/dest/out'') None,
      FsCall (CopyFile ''/tmp/qt/a.txt'' ''/dest/out/a.txt'') None,
      FsCall (CreateDirectories ''/dest/out/dir'') (Some ''denied''),
      ErrorCall ''Error creating output directory /dest/out/dir: denied'',
      TempDirRemove ''/tmp/qt'']"
    by code_simp
  have f: "FsCall (CreateDirectories ''/dest/out/dir'') (Some ''denied'') \<in> set (fst (snd ?e))"
    unfolding fx by simp
  have t: "temp_dir run_no_temp = None" by code_simp
  have a: "snd (snd ?e) = Returns False \<and> getLastError (fst ?e) = ERROR_LIBRARY_ERROR"
    using extract_local_failures[OF triple v p, of run_denied "''/dest''" False False True] f
    by blast
  have b: "snd (snd ?n) = Returns False \<and> getLastError (fst ?n) = ERROR_OUT_OF_MEMORY"
    using extract_local_failures[OF triple v p, of run_no_temp "''/dest''" False False True] t
    by blast
  show ?thesis
    by (intro conjI) (rule v, rule p, rule fx, rule a[THEN conjunct1], rule a[THEN conjunct2],
        rule t, rule b[THEN conjunct1], rule b[THEN conjunct2])
qed

text \<open>
  Claim C6. Whenever \<open>extract\<close> calls the engine's \<open>extractTo\<close>, the index list it passes
  holds, in the order of the entry list, exactly the positions of the entries that have
  at least one requested output path; the position of an entry with no output path is
  not in it. The positions are read as numbers: the list is a \<open>std::vector<uint32_t>\<close>
  and the entry list has at most \<open>2 ^ 32\<close> entries (the engine counts its items in 32
  bits).
\<close>

theorem extractTo_index_list:
  assumes "extract_archive x s outputDirectory progressCallback fileChangeCallback errorCallback =
             (s', fx, r)"
    and "EngineExtractTo d idx \<in> set fx"
    and "length (getFileList s) \<le> 2 ^ 32"
  shows "map unat idx =
           [i \<leftarrow> [0..<length (getFileList s)]. getOutputFilePaths (getFileList s ! i) \<noteq> []] \<and>
         (\<forall>i < length (getFileList s).
            getOutputFilePaths (getFileList s ! i) = [] \<longrightarrow> i \<notin> set (map unat idx))"
proof -
  have "idx = fst (select_indices (m_FileList s) 0 ([], 0))"
  proof (cases rule: extract_archive_result[OF assms(1)])
    case 1
    then show ?thesis using assms(2) by simp
  next
    case 2
    then show ?thesis using assms(2) by simp
  next
    case (3 s3)
    then show ?thesis using extract_staged_extractTo[OF 3(3) assms(2)] by simp
  qed
  then have "map unat idx =
      [i \<leftarrow> [0..<length (getFileList s)]. getOutputFilePaths (getFileList s ! i) \<noteq> []]"
    using select_indices_unat[of "m_FileList s"] assms(3)
    by (simp add: getFileList_def isEmpty_def getOutputFilePaths_def)
  then show ?thesis by simp
qed

theorem extractTo_index_list_witness:
  "EngineExtractTo ''/tmp/qt'' [0, 1] \<in>
     set (fst (snd (extract_archive demo_run (session_selected None) ''/dest'' False False False))) \<and>
   length (getFileList (session_selected None)) \<le> 2 ^ 32 \<and>
   map unat [0, 1 :: u32] =
     [i \<leftarrow> [0..<length (getFileList (session_selected None))].
        getOutputFilePaths (getFileList (session_selected None) ! i) \<noteq> []] \<and>
   2 \<notin> set (map unat [0, 1 :: u32])"
proof -
  let ?e = "extract_archive demo_run (session_selected None) ''/dest'' False False False"
  have h2: "EngineExtractTo ''/tmp/qt'' [0, 1] \<in> set (fst (snd ?e))"
    by code_simp
  have l: "length (getFileList (session_selected None)) = 3"
    by code_simp
  have h3: "length (getFileList (session_selected None)) \<le> 2 ^ 32"
    unfolding l by simp
  have c: "map unat [0, 1 :: u32] =
     [i \<leftarrow> [0..<length (getFileList (session_selected None))].
        getOutputFilePaths (getFileList (session_selected None) ! i) \<noteq> []]"
    using extractTo_index_list[OF triple h2 h3] by (rule conjunct1)
  have d: "2 \<notin> set (map unat [0, 1 :: u32])" by simp
  show ?thesis by (intro conjI) (rule h2, rule h3, rule c, rule d)
qed

text \<open>
  Claim C7. After an \<open>open\<close> that returned true, \<open>getFileList()\<close> holds one entry for each
  item that the engine enumerated, in the order of the enumeration, each with the path,
  size, CRC and directory flag of its item (and no output path yet). After \<open>close()\<close>,
  in either file, the list is empty.
\<close>

theorem file_list_after_open:
  assumes "open_archive w s archiveName passwordCallback = (s', fx, True)"
  shows "\<exists>rd. new_BitArchiveReader w archiveName = Inr rd \<and>
           reader_items_fault rd = None \<and>
           map entry_view (getFileList s') = map item_view (reader_items rd) \<and>
           length (getFileList s') = length (reader_items rd) \<and>
           list_all isEmpty (getFileList s') \<and>
           getFileList (close v s') = []"
proof -
  from open_archive_True[OF assms] obtain rd total where
    rd: "new_BitArchiveReader w archiveName = Inr rd" "reader_items_fault rd = None" and
    s': "s' = resetFileList rd
                (s\<lparr>m_ArchivePtr := Some rd, m_PasswordCallback := passwordCallback,
                   m_Total := total, m_LastError := ERROR_NONE\<rparr>)"
    by blast
  have fl: "getFileList s' =
      map (\<lambda>it. new_FileDataImpl (item_path it) (item_size it) (item_crc it) (item_isDir it))
        (reader_items rd)"
    by (simp add: s' getFileList_def resetFileList_FileList)
  have "map entry_view (getFileList s') = map item_view (reader_items rd)"
    by (simp add: fl entry_view_def item_view_def new_FileDataImpl_def getArchiveFilePath_def
        getSize_def getCRC_def isDirectory_def)
  moreover have "list_all isEmpty (getFileList s')"
    by (simp add: fl list_all_iff isEmpty_def new_FileDataImpl_def)
  moreover have "getFileList (close v s') = []"
    by (simp add: close_def getFileList_def clearFileList_def Let_def)
  ultimately show ?thesis using rd fl by auto
qed

theorem file_list_after_open_witness:
  "map entry_view (getFileList (session_opened None)) = map item_view demo_items \<and>
   length (getFileList (session_opened None)) = 3 \<and>
   getFileList (close Part_003 (session_opened None)) = []"
  using file_list_after_open[OF demo_open, of None Part_003]
  by (auto simp: demo_world_def demo_reader_def demo_items_def)

text \<open>
  Claim C8. On a valid session, \<open>open\<close> of a path that does not exist or is a directory
  returns false, with any password provider or none; the last error is
  \<open>ERROR_ARCHIVE_NOT_FOUND\<close>, nothing else of the session changes (\<open>m_ArchivePtr\<close> is the
  one from before: no reader is constructed), and the only call that leaves the class
  is the log call.
\<close>

theorem open_missing_or_directory:
  assumes "m_Valid s"
    and "file_status w archiveName = Missing \<or> file_status w archiveName = Directory"
  shows "open_archive w s archiveName passwordCallback =
           (s\<lparr>m_LastError := ERROR_ARCHIVE_NOT_FOUND\<rparr>,
            log_call s Error ''Archive not found'', False) \<and>
         getLastError (fst (open_archive w s archiveName passwordCallback)) =
           ERROR_ARCHIVE_NOT_FOUND \<and>
         m_ArchivePtr (fst (open_archive w s archiveName passwordCallback)) = m_ArchivePtr s"
  using assms by (auto simp: open_archive_def getLastError_def)

theorem open_missing_or_directory_witness:
  "open_archive demo_world (new_ArchiveImpl demo_world) ''nowhere.7z'' None =
     ((new_ArchiveImpl demo_world)\<lparr>m_LastError := ERROR_ARCHIVE_NOT_FOUND\<rparr>, [], False) \<and>
   snd (snd (open_archive demo_world (new_ArchiveImpl demo_world) ''folder''
               (Some (\<lambda>n. ''secret'')))) = False \<and>
   m_ArchivePtr (fst (open_archive demo_world (session_opened None) ''folder'' None)) =
     Some demo_reader"
proof -
  have v: "m_Valid (new_ArchiveImpl demo_world)"
    by (simp add: new_ArchiveImpl_def demo_world_def libraryPaths_def)
  have v2: "m_Valid (session_opened None)"
    by (simp add: session_opened_def open_archive_def new_ArchiveImpl_def demo_world_def
        libraryPaths_def demo_reader_def resetFileList_other)
  have p: "m_ArchivePtr (session_opened None) = Some demo_reader"
    by (simp add: session_opened_def open_archive_def new_ArchiveImpl_def demo_world_def
        libraryPaths_def demo_reader_def resetFileList_other)
  have m: "file_status demo_world ''nowhere.7z'' = Missing \<or>
           file_status demo_world ''nowhere.7z'' = Directory"
    by (simp add: demo_world_def)
  have d: "file_status demo_world ''folder'' = Missing \<or>
           file_status demo_world ''folder'' = Directory"
    by (simp add: demo_world_def)
  have l: "log_call (new_ArchiveImpl demo_world) Error ''Archive not found'' = []"
    by (simp add: log_call_def new_ArchiveImpl_def Let_def)
  show ?thesis
    using open_missing_or_directory[OF v m, of None]
      open_missing_or_directory[OF v d, of "Some (\<lambda>n. ''secret'')"]
      open_missing_or_directory[OF v2 d, of None] l p
    by simp
qed

text \<open>
  Claim C9. Let a call of \<open>extract\<close> on a valid session return false with
  \<open>ERROR_EXTRACT_CANCELLED\<close>. Then the cancellation flag is set when the call returns. No
  later \<open>extract\<close> and no later \<open>open\<close> clears it, so a second \<open>extract\<close> with a progress
  callback stops at its own first progress tick, again with \<open>ERROR_EXTRACT_CANCELLED\<close>.
  The \<open>close()\<close> of \<^verbatim>\<open>part_003\<close> leaves the flag set; the \<open>close()\<close> of
  \<^verbatim>\<open>part_004\<close> clears it.
\<close>

theorem cancel_flag_stays_set:
  assumes "extract_archive x1 s out1 pc1 fc1 ec1 = (s1, fx1, Returns False)"
    and "m_Valid s" and "getLastError s1 = ERROR_EXTRACT_CANCELLED"
  shows "m_shouldCancel s1 \<and>
         (\<forall>x out pc fc ec. m_shouldCancel (fst (extract_archive x s1 out pc fc ec))) \<and>
         (\<forall>w a pw. m_shouldCancel (fst (open_archive w s1 a pw))) \<and>
         (\<forall>x tmp pre c post out fc ec.
            temp_dir x = Some tmp \<and> events x = pre @ Tick c # post \<and> list_all quiet pre \<and>
            (file_relay_installed s1 \<longrightarrow> fc) \<longrightarrow>
            (\<exists>s2 fx0.
               extract_archive x s1 out True fc ec =
                 (s2, fx0 @ [ProgressCall (m_ProgressType s1) c (m_Total s1), TempDirRemove tmp] @
                        (if ec then [ErrorCall (abort_text x)] else []),
                  Returns False) \<and>
               \<not> list_ex is_progress fx0 \<and>
               getLastError s2 = ERROR_EXTRACT_CANCELLED \<and> m_shouldCancel s2)) \<and>
         m_shouldCancel (close Part_003 s1) \<and> \<not> m_shouldCancel (close Part_004 s1)"
proof -
  have st: "m_shouldCancel s1" "m_Valid s1" "m_ArchivePtr s1 \<noteq> None"
    using cancelled_call_state[OF assms(1,2)] assms(3) by (simp_all add: getLastError_def)
  have a: "\<forall>x out pc fc ec. m_shouldCancel (fst (extract_archive x s1 out pc fc ec))"
    using extract_archive_keeps_flag[OF st(1)] by simp
  have b: "\<forall>w a pw. m_shouldCancel (fst (open_archive w s1 a pw))"
    using open_archive_keeps st(1) by simp
  have c: "\<exists>s2 fx0.
               extract_archive x s1 out True fc ec =
                 (s2, fx0 @ [ProgressCall (m_ProgressType s1) c (m_Total s1), TempDirRemove tmp] @
                        (if ec then [ErrorCall (abort_text x)] else []),
                  Returns False) \<and>
               \<not> list_ex is_progress fx0 \<and>
               getLastError s2 = ERROR_EXTRACT_CANCELLED \<and> m_shouldCancel s2"
    if "temp_dir x = Some tmp" "events x = pre @ Tick c # post" "list_all quiet pre"
       "file_relay_installed s1 \<longrightarrow> fc"
    for x tmp pre c post out fc ec
    using extract_archive_halts[OF st(2,3) that(1,2,3) _ that(4), of out ec] st(1)
    by (auto simp: getLastError_def)
  have d: "m_shouldCancel (close Part_003 s1) \<and> \<not> m_shouldCancel (close Part_004 s1)"
    using st(1) by (simp add: close_def clearFileList_def Let_def)
  show ?thesis using st(1) a b c d by blast
qed

theorem cancel_flag_stays_set_witness:
  "m_Valid (session_selected None) \<and>
   snd (snd (extract_archive (run_with [CancelCall, Tick 5]) (session_selected None)
               ''/dest'' True False False)) = Returns False \<and>
   getLastError session_cancelled = ERROR_EXTRACT_CANCELLED \<and>
   m_shouldCancel session_cancelled \<and>
   m_shouldCancel (close Part_003 session_cancelled) \<and>
   \<not> m_shouldCancel (close Part_004 session_cancelled) \<and>
   snd (snd (extract_archive (run_with [Tick 7, Tick 8]) session_cancelled
               ''/dest'' True False False)) = Returns False \<and>
   getLastError (fst (extract_archive (run_with [Tick 7, Tick 8]) session_cancelled
                        ''/dest'' True False False)) = ERROR_EXTRACT_CANCELLED \<and>
   filter is_progress (fst (snd (extract_archive (run_with [Tick 7, Tick 8]) session_cancelled
                                   ''/dest'' True False False))) =
     [ProgressCall EXTRACTION 7 30]"
proof -
  let ?S = "session_selected None"
  let ?e1 = "extract_archive (run_with [CancelCall, Tick 5]) ?S ''/dest'' True False False"
  let ?x2 = "run_with [Tick 7, Tick 8]"
  let ?e2 = "extract_archive ?x2 session_cancelled ''/dest'' True False False"
  have v: "m_Valid ?S" by code_simp
  have r1: "snd (snd ?e1) = Returns False" by code_simp
  have h1: "?e1 = (session_cancelled, fst (snd ?e1), Returns False)"
    unfolding session_cancelled_def r1[symmetric] by simp
  have l1: "getLastError session_cancelled = ERROR_EXTRACT_CANCELLED" by code_simp
  note main = cancel_flag_stays_set[OF h1 v l1]
  have f: "m_shouldCancel session_cancelled" using main by (rule conjunct1)
  have c3: "m_shouldCancel (close Part_003 session_cancelled)" using main by blast
  have c4: "\<not> m_shouldCancel (close Part_004 session_cancelled)" using main by blast
  have t: "temp_dir ?x2 = Some ''/tmp/qt''" by code_simp
  have ev: "events ?x2 = [] @ Tick 7 # [Tick 8]" by code_simp
  have nr: "file_relay_installed session_cancelled \<longrightarrow> False" by code_simp
  have q: "list_all quiet []" by simp
  note step = main[THEN conjunct2, THEN conjunct2, THEN conjunct2, THEN conjunct1, rule_format,
      of ?x2 "''/tmp/qt''" "[]" 7 "[Tick 8]" False "''/dest''" False]
  have "\<exists>s2 fx0.
          ?e2 = (s2, fx0 @ [ProgressCall (m_ProgressType session_cancelled) 7
                              (m_Total session_cancelled), TempDirRemove ''/tmp/qt''] @
                       (if False then [ErrorCall (abort_text ?x2)] else []),
                 Returns False) \<and>
          \<not> list_ex is_progress fx0 \<and>
          getLastError s2 = ERROR_EXTRACT_CANCELLED \<and> m_shouldCancel s2"
    by (rule step) (intro conjI, rule t, rule ev, rule q, rule nr)
  then obtain s2 fx0 where
    e2: "?e2 = (s2, fx0 @ [ProgressCall (m_ProgressType session_cancelled) 7
                              (m_Total session_cancelled), TempDirRemove ''/tmp/qt''] @
                       (if False then [ErrorCall (abort_text ?x2)] else []),
                 Returns False)" and
    l2: "getLastError s2 = ERROR_EXTRACT_CANCELLED"
    by blast
  have a: "snd (snd ?e2) = Returns False" unfolding e2 by simp
  have b: "getLastError (fst ?e2) = ERROR_EXTRACT_CANCELLED" unfolding e2 using l2 by simp
  have p: "filter is_progress (fst (snd ?e2)) = [ProgressCall EXTRACTION 7 30]"
    by code_simp
  show ?thesis
    by (intro conjI) (rule v, rule r1, rule l1, rule f, rule c3, rule c4, rule a, rule b, rule p)
qed

text \<open>
  Claim C10. Every progress notification that \<open>extract\<close> hands to the caller carries
  \<open>m_Total\<close> as its total. \<open>m_Total\<close> is written by \<open>open\<close> only, which stores the size
  that the engine reports for the whole archive; \<open>extract\<close>, \<open>cancel\<close> and the
  annotation of entries leave it as it is. The sum over the selected entries reaches no
  callback: with any other sizes of the entries (and so any other sum), \<open>extract\<close> makes
  the same calls and returns the same result.
\<close>

theorem progress_total:
  assumes "extract_archive x s outputDirectory progressCallback fileChangeCallback errorCallback =
             (s', fx, r)"
  shows "(\<forall>t current n. ProgressCall t current n \<in> set fx \<longrightarrow> n = m_Total s) \<and>
         m_Total s' = m_Total s \<and> m_Total (cancel s) = m_Total s \<and>
         m_Total (annotate i p s) = m_Total s \<and>
         (\<forall>w s0 a pw fx0.
            open_archive w s0 a pw = (s, fx0, True) \<longrightarrow>
            (\<exists>rd. new_BitArchiveReader w a = Inr rd \<and> reader_size rd = Inr (m_Total s))) \<and>
         snd (extract_archive x (resize g s) outputDirectory progressCallback
                fileChangeCallback errorCallback) = (fx, r)"
proof -
  have "\<exists>rd. new_BitArchiveReader w a = Inr rd \<and> reader_size rd = Inr (m_Total s)"
    if "open_archive w s0 a pw = (s, fx0, True)" for w s0 a pw fx0
    using open_archive_True[OF that] by (auto simp: resetFileList_other)
  moreover have "snd (extract_archive x (resize g s) outputDirectory progressCallback
                fileChangeCallback errorCallback) = (fx, r)"
    by (simp add: resize_extract_archive assms)
  ultimately show ?thesis
    using extract_archive_Total[OF assms] by (simp add: cancel_def annotate_def)
qed

theorem progress_total_witness:
  "ProgressCall EXTRACTION 5 30 \<in>
     set (fst (snd (extract_archive (run_with [Tick 5]) (session_selected None)
                      ''/dest'' True False False))) \<and>
   m_Total (session_selected None) = 30 \<and>
   snd (select_indices (getFileList (session_selected None)) 0 ([], 0)) = 10 \<and>
   snd (select_indices (getFileList (resize (\<lambda>f. 7) (session_selected None))) 0 ([], 0)) = 14 \<and>
   snd (extract_archive (run_with [Tick 5]) (resize (\<lambda>f. 7) (session_selected None))
          ''/dest'' True False False) =
   snd (extract_archive (run_with [Tick 5]) (session_selected None) ''/dest'' True False False)"
proof -
  let ?S = "session_selected None"
  let ?e = "extract_archive (run_with [Tick 5]) ?S ''/dest'' True False False"
  note main = progress_total[OF triple, of "run_with [Tick 5]" ?S "''/dest''" True False False]
  have h: "ProgressCall EXTRACTION 5 30 \<in> set (fst (snd ?e))" by code_simp
  have "30 = m_Total ?S"
    using main h by blast
  then have m: "m_Total ?S = 30" by simp
  have z: "snd (select_indices (getFileList ?S) 0 ([], 0)) = 10" by code_simp
  have z7: "snd (select_indices (getFileList (resize (\<lambda>f. 7) ?S)) 0 ([], 0)) = 14"
    by code_simp
  have n: "snd (extract_archive (run_with [Tick 5]) (resize (\<lambda>f. 7) ?S)
                  ''/dest'' True False False) = snd ?e"
    using main[of _ _ "\<lambda>f. 7"] by simp
  show ?thesis by (intro conjI) (rule h, rule m, rule z, rule z7, rule n)
qed

end
